theory Spec2Isabelle
  imports Complex_Main
begin

section \<open>Array primitives of the notebook\<close>

text \<open>
  The simulation notebook works on NumPy arrays. One axis of an array is a list here.
  The arithmetic is left polymorphic: at type \<open>real\<close> it is exact, which is the reading
  of the algebraic statements below; the identity of a reduction over an empty axis is
  \<open>1\<close> for a product and \<open>0\<close> for a sum, as NumPy has it.
\<close>

fun np_prod :: "'a::{one,times} list \<Rightarrow> 'a" where
  "np_prod [] = 1"
| "np_prod (x # xs) = foldl (*) x xs"

fun np_sum :: "'a::{zero,plus} list \<Rightarrow> 'a" where
  "np_sum [] = 0"
| "np_sum (x # xs) = foldl (+) x xs"

fun cumprod_from :: "'a::times \<Rightarrow> 'a list \<Rightarrow> 'a list" where
  "cumprod_from acc [] = []"
| "cumprod_from acc (x # xs) = (acc * x) # cumprod_from (acc * x) xs"

fun np_cumprod :: "'a::times list \<Rightarrow> 'a list" where
  "np_cumprod [] = []"
| "np_cumprod (x # xs) = x # cumprod_from x xs"

section \<open>The non-spatial macro-step update of one cell\<close>

text \<open>
  \<^verbatim>\<open>current * np.prod(g, axis=2) + c * np.sum(np.cumprod(g[:, :, 1:][:, :, ::-1], axis=2), axis=2) + c\<close>
  for one (species, site) cell: \<open>g\<close> is the cell's row of \<open>tau\<close> growth factors,
  \<open>g[1:]\<close> is \<open>drop 1\<close> and \<open>[::-1]\<close> is \<open>rev\<close>.
\<close>

definition update_cell :: "'a::{zero,one,plus,times} \<Rightarrow> 'a \<Rightarrow> 'a list \<Rightarrow> 'a" where
  "update_cell c current g =
     current * np_prod g + c * np_sum (np_cumprod (rev (drop 1 g))) + c"

text \<open>
  The sub-step recurrence \<open>x \<leftarrow> g\<^sub>k * x + c\<close>, applied to the factors in
  chronological order.
\<close>

definition substeps :: "real \<Rightarrow> real \<Rightarrow> real list \<Rightarrow> real" where
  "substeps c x g = foldl (\<lambda>x gk. gk * x + c) x g"

text \<open>
  The closed form as the specification writes it, with \<open>g\<^sub>k = g ! (k - 1)\<close>, so
  that the product of \<open>g\<^sub>k\<^sub>+\<^sub>1 .. g\<^sub>\<tau>\<close> is the product of \<open>drop k g\<close>.
\<close>

definition closed_form :: "real \<Rightarrow> real \<Rightarrow> real list \<Rightarrow> real" where
  "closed_form c x g =
     x * prod_list g + c * (\<Sum>k = 1..<length g. prod_list (drop k g)) + c"

section \<open>The random generators\<close>

text \<open>
  A generator object is modelled by the sequence of variates it hands out, in the order
  they are requested; an array of a given shape is filled from it in row-major order,
  and the caller keeps the position reached. The notebook has two generators: \<open>rng\<close>,
  made by \<^verbatim>\<open>np.random.default_rng(seed)\<close> and so a function of the seed, and NumPy's
  module-level generator behind \<^verbatim>\<open>np.random.uniform\<close> and \<^verbatim>\<open>np.random.randint\<close>, which
  the notebook never seeds.
\<close>

type_synonym 'a generator = "nat \<Rightarrow> 'a"

text \<open>\<^verbatim>\<open>rng.integers(1, 10, size=(S, M))\<close>: the first \<open>S * M\<close> variates, as an \<open>S \<times> M\<close> array.\<close>

definition integers :: "'a generator \<Rightarrow> nat \<Rightarrow> nat \<Rightarrow> 'a list list" where
  "integers rng S M = map (\<lambda>s. map (\<lambda>m. rng (s * M + m)) [0..<M]) [0..<S]"

text \<open>
  \<^verbatim>\<open>rng.choice(values, size=(S, M, tau), p=probabilities)\<close>: the next \<open>S * M * tau\<close>
  variates from position \<open>pos\<close>, as an \<open>S \<times> M \<times> tau\<close> array.
\<close>

definition choice :: "'a generator \<Rightarrow> nat \<Rightarrow> nat \<Rightarrow> nat \<Rightarrow> nat \<Rightarrow> 'a list list list" where
  "choice rng pos S M tau =
     map (\<lambda>s. map (\<lambda>m. map (\<lambda>k. rng (pos + (s * M + m) * tau + k)) [0..<tau]) [0..<M]) [0..<S]"

section \<open>The non-spatial time evolution\<close>

text \<open>
  \<open>IndexError\<close> is the one exception the notebook's own statements can raise (the
  write to column 0 of an array with no column). \<open>NumericOverflow\<close> and
  \<open>DivisionByZero\<close> are error kinds the specification names; no statement of the
  notebook raises them.
\<close>

datatype error = IndexError | NumericOverflow | DivisionByZero

record 'a state =
  current :: "'a list list"
  N :: "'a list list"
  pos :: nat

text \<open>\<^verbatim>\<open>N[:, t] = v\<close> on an array given by its rows.\<close>

definition set_column :: "nat \<Rightarrow> 'a list \<Rightarrow> 'a list list \<Rightarrow> 'a list list" where
  "set_column t v rows = map2 (\<lambda>row x. row[t := x]) rows v"

text \<open>
  The state before the loop: \<open>current\<close> holds the initial draws, \<open>N\<close> is
  \<^verbatim>\<open>np.zeros((S, dp))\<close> with column 0 set to the site sums.
\<close>

definition init_state :: "nat \<Rightarrow> nat \<Rightarrow> nat \<Rightarrow> 'a::{zero,plus} generator \<Rightarrow> 'a state" where
  "init_state S M dp ini =
     (let cur = integers ini S M
      in \<lparr>current = cur,
          N = set_column 0 (map np_sum cur) (replicate S (replicate dp 0)),
          pos = 0\<rparr>)"

text \<open>The body of \<^verbatim>\<open>for t in range(1, dp)\<close>.\<close>

definition step ::
  "nat \<Rightarrow> nat \<Rightarrow> nat \<Rightarrow> 'a::{zero,one,plus,times} \<Rightarrow> 'a generator \<Rightarrow> 'a state \<Rightarrow> nat \<Rightarrow> 'a state" where
  "step S M tau c gs st t =
     (let g = choice gs (pos st) S M tau;
          cur = map2 (map2 (update_cell c)) (current st) g
      in \<lparr>current = cur,
          N = set_column t (map np_sum cur) (N st),
          pos = pos st + S * M * tau\<rparr>)"

text \<open>The state after the first \<open>k\<close> iterations of the loop, \<open>t = 1 .. k\<close>.\<close>

definition evolve ::
  "nat \<Rightarrow> nat \<Rightarrow> nat \<Rightarrow> nat \<Rightarrow> 'a::{zero,one,plus,times} \<Rightarrow> 'a generator \<Rightarrow> 'a generator \<Rightarrow> nat \<Rightarrow> 'a state" where
  "evolve S M tau dp c ini gs k = foldl (step S M tau c gs) (init_state S M dp ini) [1..<Suc k]"

text \<open>
  The initialisation and the whole loop. With \<open>dp = 0\<close> the array \<open>N\<close> has no column
  and \<^verbatim>\<open>N[:, 0] = ...\<close> raises.
\<close>

definition simulate ::
  "nat \<Rightarrow> nat \<Rightarrow> nat \<Rightarrow> nat \<Rightarrow> 'a::{zero,one,plus,times} \<Rightarrow> 'a generator \<Rightarrow> 'a generator \<Rightarrow> error + 'a state" where
  "simulate S M tau dp c ini gs =
     (if dp = 0 then Inl IndexError
      else Inr (foldl (step S M tau c gs) (init_state S M dp ini) [1..<dp]))"

text \<open>
  \<^verbatim>\<open>np.exp(np.random.uniform(np.log(low), np.log(high), size))\<close> for one element, \<open>u\<close>
  being the unit-interval variate of the module-level generator that
  \<^verbatim>\<open>np.random.uniform\<close> scales to \<open>[log low, log high)\<close>.
\<close>

definition log_uniform :: "real \<Rightarrow> real \<Rightarrow> real \<Rightarrow> real" where
  "log_uniform low high u = exp (ln low + (ln high - ln low) * u)"

text \<open>
  The time evolution of the log-uniform cell: the initial abundances are drawn from
  \<open>rng\<close>, the growth factors through \<open>log_uniform\<close> from the module-level generator
  \<open>np_random\<close>.
\<close>

definition log_uniform_model ::
  "nat \<Rightarrow> nat \<Rightarrow> nat \<Rightarrow> nat \<Rightarrow> real \<Rightarrow> real \<Rightarrow> real \<Rightarrow> real generator \<Rightarrow> real generator
     \<Rightarrow> error + real state" where
  "log_uniform_model S M tau dp c low high rng np_random =
     simulate S M tau dp c rng (\<lambda>k. log_uniform low high (np_random k))"

text \<open>The parameters of the binary cell.\<close>

definition g0 :: "real \<Rightarrow> real \<Rightarrow> real" where
  "g0 alpha gamma = (2 / (1 + gamma powr alpha)) powr (1 / alpha)"

definition g1 :: "real \<Rightarrow> real \<Rightarrow> real" where
  "g1 alpha gamma = gamma * g0 alpha gamma"

text \<open>
  The per-cell reading of the evolution, as the specification describes it: the
  abundance of cell \<open>(s, m)\<close> after \<open>k\<close> macro steps, each step applying the
  macro-step update once, to the \<open>tau\<close> consecutive draws the cell has in that step's
  batch of \<open>S * M * tau\<close> draws. The loop is compared with it below.
\<close>

fun cell_after ::
  "nat \<Rightarrow> nat \<Rightarrow> nat \<Rightarrow> 'a::{zero,one,plus,times} \<Rightarrow> 'a generator \<Rightarrow> 'a generator \<Rightarrow> nat \<Rightarrow> nat \<Rightarrow> nat \<Rightarrow> 'a" where
  "cell_after S M tau c ini gs s m 0 = ini (s * M + m)"
| "cell_after S M tau c ini gs s m (Suc k) =
     update_cell c (cell_after S M tau c ini gs s m k)
       (map (\<lambda>j. gs (k * (S * M * tau) + (s * M + m) * tau + j)) [0..<tau])"

text \<open>A generator that hands out the same variate at every request.\<close>

definition constant_generator :: "'a \<Rightarrow> 'a generator" where
  "constant_generator x k = x"

section \<open>The spatial diffusion cell\<close>

text \<open>
  \<open>allxs\<close> is an array of shape \<open>(L * L, dp)\<close>, written and read at single entries
  \<open>allxs[ind, t]\<close>: a store from (row, column) to the entry. The rows are Python
  integers, computed with the floored \<open>%\<close>, which is \<open>mod\<close> on \<open>int\<close>.
\<close>

type_synonym lattice = "int \<times> nat \<Rightarrow> real"

text \<open>The body of the two inner loops, for the site \<open>(i, j)\<close> at macro step \<open>t\<close>.\<close>

fun update_site :: "nat \<Rightarrow> real \<Rightarrow> real \<Rightarrow> (int \<Rightarrow> real) \<Rightarrow> nat \<Rightarrow> lattice \<Rightarrow> int \<times> int \<Rightarrow> lattice" where
  "update_site L d c g t allxs (i, j) =
     (let ai = (i - 1) mod int L; bj = (j + 1) mod int L;
          ci = (i + 1) mod int L; dj = (j - 1) mod int L;
          ind = i * int L + j;
          ind_a = ai * int L + j; ind_b = i * int L + bj;
          ind_c = ci * int L + j; ind_d = i * int L + dj
      in allxs((ind, t) :=
           ((1 - 4 * d) * allxs (ind, t - 1)
              + d * (allxs (ind_a, t - 1) + allxs (ind_b, t - 1)
                      + allxs (ind_c, t - 1) + allxs (ind_d, t - 1))) * g ind + c))"

text \<open>\<^verbatim>\<open>for i in range(L): for j in range(L)\<close>: the sites in the order the notebook visits them.\<close>

definition sites :: "nat \<Rightarrow> (int \<times> int) list" where
  "sites L = concat (map (\<lambda>i. map (\<lambda>j. (int i, int j)) [0..<L]) [0..<L])"

text \<open>One sweep over the lattice, visiting the sites in a given order.\<close>

definition sweep :: "nat \<Rightarrow> real \<Rightarrow> real \<Rightarrow> (int \<Rightarrow> real) \<Rightarrow> nat \<Rightarrow> (int \<times> int) list \<Rightarrow> lattice \<Rightarrow> lattice" where
  "sweep L d c g t order allxs = foldl (update_site L d c g t) allxs order"

text \<open>
  The body of \<^verbatim>\<open>for t in range(1, dp)\<close>: \<^verbatim>\<open>g = rng.choice(values, size=L * L, p=probabilities)\<close>
  takes the next \<open>L * L\<close> variates of \<open>rng\<close>, and \<open>g[ind]\<close> is the one at offset \<open>ind\<close>.
\<close>

definition spatial_step ::
  "nat \<Rightarrow> real \<Rightarrow> real \<Rightarrow> real generator \<Rightarrow> (nat \<Rightarrow> (int \<times> int) list) \<Rightarrow> lattice \<times> nat \<Rightarrow> nat \<Rightarrow> lattice \<times> nat" where
  "spatial_step L d c rng order st t =
     (sweep L d c (\<lambda>ind. rng (snd st + nat ind)) t (order t) (fst st), snd st + L * L)"

text \<open>
  \<^verbatim>\<open>allxs = np.zeros((L * L, dp)); allxs[:, 0] = np.random.randint(1,10,size=L*L)\<close>:
  column 0 holds the first \<open>L * L\<close> variates of the module-level generator.
\<close>

definition init_lattice :: "nat \<Rightarrow> real generator \<Rightarrow> lattice" where
  "init_lattice L np_random =
     (\<lambda>(ind, t). if t = 0 \<and> 0 \<le> ind \<and> ind < int (L * L) then np_random (nat ind) else 0)"

text \<open>The state after the first \<open>k\<close> macro steps, for a visiting order chosen per step.\<close>

definition spatial_evolve ::
  "(nat \<Rightarrow> (int \<times> int) list) \<Rightarrow> nat \<Rightarrow> real \<Rightarrow> real \<Rightarrow> real generator \<Rightarrow> real generator \<Rightarrow> nat \<Rightarrow> lattice \<times> nat" where
  "spatial_evolve order L c d rng np_random k =
     foldl (spatial_step L d c rng order) (init_lattice L np_random, 0) [1..<Suc k]"

definition spatial_in_order ::
  "(nat \<Rightarrow> (int \<times> int) list) \<Rightarrow> nat \<Rightarrow> nat \<Rightarrow> real \<Rightarrow> real \<Rightarrow> real generator \<Rightarrow> real generator \<Rightarrow> error + lattice" where
  "spatial_in_order order L dp c d rng np_random =
     (if dp = 0 then Inl IndexError
      else Inr (fst (foldl (spatial_step L d c rng order) (init_lattice L np_random, 0) [1..<dp])))"

text \<open>The cell as written: every sweep in the order of the two nested loops.\<close>

definition spatial_model ::
  "nat \<Rightarrow> nat \<Rightarrow> real \<Rightarrow> real \<Rightarrow> real generator \<Rightarrow> real generator \<Rightarrow> error + lattice" where
  "spatial_model L dp c d rng np_random = spatial_in_order (\<lambda>t. sites L) L dp c d rng np_random"

text \<open>
  The update as the specification states it, on the two-dimensional lattice \<open>old\<close> of
  the previous step: the four neighbours with both coordinates wrapped modulo \<open>L\<close>.
  The sweep is compared with it below.
\<close>

definition diffuse :: "nat \<Rightarrow> real \<Rightarrow> real \<Rightarrow> real \<Rightarrow> (int \<times> int \<Rightarrow> real) \<Rightarrow> int \<Rightarrow> int \<Rightarrow> real" where
  "diffuse L d c g old i j =
     ((1 - 4 * d) * old (i, j)
        + d * (old ((i - 1) mod int L, j) + old (i, (j + 1) mod int L)
                + old ((i + 1) mod int L, j) + old (i, (j - 1) mod int L))) * g + c"

text \<open>The array \<open>allxs\<close> the cell leaves behind, as its \<open>L * L\<close> rows of \<open>dp\<close> entries.\<close>

definition spatial_array ::
  "nat \<Rightarrow> nat \<Rightarrow> real \<Rightarrow> real \<Rightarrow> real generator \<Rightarrow> real generator \<Rightarrow> error + real list list" where
  "spatial_array L dp c d rng np_random =
     (case spatial_model L dp c d rng np_random of
        Inl e \<Rightarrow> Inl e
      | Inr allxs \<Rightarrow> Inr (map (\<lambda>ind. map (\<lambda>t. allxs (int ind, t)) [0..<dp]) [0..<L * L]))"

text \<open>Another visiting order: the sites of the two nested loops, last to first.\<close>

definition reversed_order :: "nat \<Rightarrow> nat \<Rightarrow> (int \<times> int) list" where
  "reversed_order L t = rev (sites L)"

text \<open>A generator that hands out \<open>1, 2, 3, ...\<close>.\<close>

definition counting_generator :: "real generator" where
  "counting_generator k = real k + 1"

section \<open>A view of float64 values\<close>

text \<open>
  The arithmetic of the notebook is IEEE double precision. To speak about values that
  are not finite, a float64 is viewed as a real number, \<open>+inf\<close>, \<open>-inf\<close> or \<open>nan\<close>.
  The operations follow IEEE on the special values. A finite result becomes infinite
  when its magnitude reaches the overflow threshold of the format, \<open>2^1024 - 2^970\<close>,
  and zero when its magnitude is at most \<open>2^-1075\<close>, half the smallest subnormal
  number; in between it is kept exact (rounding to 53 bits and the sign of zero are
  left out). NumPy raises no exception in any of these operations.
\<close>

datatype fval = Fin real | PInf | NInf | NaN

definition overflow_threshold :: real where
  "overflow_threshold = 2 ^ 1024 - 2 ^ 970"

definition underflow_threshold :: real where
  "underflow_threshold = 1 / 2 ^ 1075"

definition float64 :: "real \<Rightarrow> fval" where
  "float64 r = (if overflow_threshold \<le> r then PInf
                else if r \<le> - overflow_threshold then NInf
                else if \<bar>r\<bar> \<le> underflow_threshold then Fin 0 else Fin r)"

fun fadd :: "fval \<Rightarrow> fval \<Rightarrow> fval" where
  "fadd NaN y = NaN"
| "fadd x NaN = NaN"
| "fadd PInf NInf = NaN"
| "fadd NInf PInf = NaN"
| "fadd PInf y = PInf"
| "fadd x PInf = PInf"
| "fadd NInf y = NInf"
| "fadd x NInf = NInf"
| "fadd (Fin a) (Fin b) = float64 (a + b)"

fun fmul :: "fval \<Rightarrow> fval \<Rightarrow> fval" where
  "fmul NaN y = NaN"
| "fmul x NaN = NaN"
| "fmul PInf PInf = PInf"
| "fmul PInf NInf = NInf"
| "fmul NInf PInf = NInf"
| "fmul NInf NInf = PInf"
| "fmul PInf (Fin b) = (if b = 0 then NaN else if 0 < b then PInf else NInf)"
| "fmul NInf (Fin b) = (if b = 0 then NaN else if 0 < b then NInf else PInf)"
| "fmul (Fin a) PInf = (if a = 0 then NaN else if 0 < a then PInf else NInf)"
| "fmul (Fin a) NInf = (if a = 0 then NaN else if 0 < a then NInf else PInf)"
| "fmul (Fin a) (Fin b) = float64 (a * b)"

fun fdiv :: "fval \<Rightarrow> fval \<Rightarrow> fval" where
  "fdiv NaN y = NaN"
| "fdiv x NaN = NaN"
| "fdiv PInf PInf = NaN"
| "fdiv PInf NInf = NaN"
| "fdiv NInf PInf = NaN"
| "fdiv NInf NInf = NaN"
| "fdiv PInf (Fin b) = (if b < 0 then NInf else PInf)"
| "fdiv NInf (Fin b) = (if b < 0 then PInf else NInf)"
| "fdiv (Fin a) PInf = Fin 0"
| "fdiv (Fin a) NInf = Fin 0"
| "fdiv (Fin a) (Fin b) =
     (if b = 0 then (if a = 0 then NaN else if 0 < a then PInf else NInf)
      else float64 (a / b))"

instantiation fval :: "{zero,one,plus,times}"
begin

definition zero_fval :: fval where
  "zero_fval = Fin 0"

definition one_fval :: fval where
  "one_fval = Fin 1"

definition plus_fval :: "fval \<Rightarrow> fval \<Rightarrow> fval" where
  "plus_fval x y = fadd x y"

definition times_fval :: "fval \<Rightarrow> fval \<Rightarrow> fval" where
  "times_fval x y = fmul x y"

instance ..

end

text \<open>The finite values.\<close>

fun ffinite :: "fval \<Rightarrow> bool" where
  "ffinite (Fin r) = True"
| "ffinite PInf = False"
| "ffinite NInf = False"
| "ffinite NaN = False"

text \<open>
  The strictly positive float64 values: a real above the underflow threshold (every
  positive float64 is at least \<open>2^-1074\<close>), or \<open>+inf\<close>.
\<close>

fun fpositive :: "fval \<Rightarrow> bool" where
  "fpositive (Fin r) = (underflow_threshold < r)"
| "fpositive PInf = True"
| "fpositive NInf = False"
| "fpositive NaN = False"

text \<open>The values that are zero, positive or \<open>+inf\<close>.\<close>

fun fnonneg :: "fval \<Rightarrow> bool" where
  "fnonneg (Fin r) = (0 \<le> r)"
| "fnonneg PInf = True"
| "fnonneg NInf = False"
| "fnonneg NaN = False"

text \<open>A generator that hands out \<open>x\<close> at its first \<open>n\<close> requests and \<open>y\<close> afterwards.\<close>

definition switching_generator :: "nat \<Rightarrow> 'a \<Rightarrow> 'a \<Rightarrow> 'a generator" where
  "switching_generator n x y k = (if k < n then x else y)"

section \<open>The growth rates\<close>

text \<open>
  \<^verbatim>\<open>G = N[:, 1:] / N[:, :-1]\<close>, an element-wise float64 division. It is stated on
  the float64 view only: a quotient by zero is \<open>nan\<close> or infinite there, where the
  division of \<open>real\<close> would give \<open>0\<close>.
\<close>

definition growth_rates :: "fval list list \<Rightarrow> fval list list" where
  "growth_rates rows = map (\<lambda>row. map2 fdiv (drop 1 row) (butlast row)) rows"

text \<open>A whole cell of the notebook: the time series \<open>N\<close> and the growth rates \<open>G\<close>.\<close>

definition run_model ::
  "nat \<Rightarrow> nat \<Rightarrow> nat \<Rightarrow> nat \<Rightarrow> fval \<Rightarrow> fval generator \<Rightarrow> fval generator
     \<Rightarrow> error + (fval list list \<times> fval list list)" where
  "run_model S M tau dp c ini gs =
     (case simulate S M tau dp c ini gs of
        Inl e \<Rightarrow> Inl e
      | Inr st \<Rightarrow> Inr (N st, growth_rates (N st)))"

text \<open>
  The three-value and the binary cell draw the initial abundances and then the growth
  factors from the one generator \<open>rng\<close>: the growth factors start after the \<open>S * M\<close>
  initial abundances.
\<close>

definition three_value_model ::
  "nat \<Rightarrow> nat \<Rightarrow> nat \<Rightarrow> nat \<Rightarrow> fval \<Rightarrow> fval generator
     \<Rightarrow> error + (fval list list \<times> fval list list)" where
  "three_value_model S M tau dp c rng = run_model S M tau dp c rng (\<lambda>k. rng (S * M + k))"

section \<open>Facts about the primitives\<close>

lemma foldl_times_real: "foldl (*) (a::real) xs = a * prod_list xs"
  by (induction xs arbitrary: a) (simp_all add: mult.assoc)

lemma foldl_plus_real: "foldl (+) (a::real) xs = a + sum_list xs"
  by (induction xs arbitrary: a) (simp_all add: add.assoc)

lemma np_prod_real: "np_prod (xs::real list) = prod_list xs"
  by (cases xs) (simp_all add: foldl_times_real)

lemma np_sum_real: "np_sum (xs::real list) = sum_list xs"
  by (cases xs) (simp_all add: foldl_plus_real)

lemma cumprod_from_real:
  "cumprod_from (a::real) xs = map (\<lambda>z. a * z) (np_cumprod xs)"
proof (induction xs arbitrary: a)
  case Nil
  show ?case by simp
next
  case (Cons x xs)
  have "cumprod_from (a * x) xs = map (\<lambda>z. (a * x) * z) (np_cumprod xs)"
    by (rule Cons.IH)
  moreover have "cumprod_from x xs = map (\<lambda>z. x * z) (np_cumprod xs)"
    by (rule Cons.IH)
  ultimately show ?case by (simp add: mult.assoc)
qed

lemma sum_cumprod_Cons:
  "sum_list (np_cumprod ((y::real) # ys)) = y * (1 + sum_list (np_cumprod ys))"
proof -
  have "sum_list (map (\<lambda>z. y * z) (np_cumprod ys)) = y * sum_list (np_cumprod ys)"
    by (simp add: sum_list_const_mult)
  then show ?thesis by (simp add: cumprod_from_real distrib_left)
qed

lemma update_cell_snoc:
  assumes "g \<noteq> []"
  shows "update_cell c x (g @ [gk]) = gk * update_cell c x g + (c::real)"
proof -
  from assms have "drop 1 (g @ [gk]) = drop 1 g @ [gk]" by (cases g) simp_all
  then have "np_cumprod (rev (drop 1 (g @ [gk]))) = np_cumprod (gk # rev (drop 1 g))"
    by simp
  then have "sum_list (np_cumprod (rev (drop 1 (g @ [gk]))))
      = gk * (1 + sum_list (np_cumprod (rev (drop 1 g))))"
    by (simp only: sum_cumprod_Cons)
  then show ?thesis
    by (simp add: update_cell_def np_prod_real np_sum_real algebra_simps)
qed

lemma update_cell_substeps:
  "g \<noteq> [] \<Longrightarrow> update_cell c x g = substeps c x g"
proof (induction g rule: rev_induct)
  case Nil
  then show ?case by simp
next
  case (snoc gk g)
  show ?case
  proof (cases "g = []")
    case True
    then show ?thesis by (simp add: update_cell_def substeps_def)
  next
    case False
    with snoc.IH have "update_cell c x g = substeps c x g" by simp
    with False show ?thesis by (simp add: update_cell_snoc) (simp add: substeps_def)
  qed
qed

lemma closed_form_snoc:
  assumes "g \<noteq> []"
  shows "closed_form c x (g @ [gk]) = gk * closed_form c x g + c"
proof -
  have "(\<Sum>k = 1..<length g. prod_list (drop k (g @ [gk])))
      = (\<Sum>k = 1..<length g. prod_list (drop k g) * gk)"
    by (rule sum.cong) simp_all
  also have "\<dots> = (\<Sum>k = 1..<length g. prod_list (drop k g)) * gk"
    by (simp add: sum_distrib_right)
  finally have inner: "(\<Sum>k = 1..<length g. prod_list (drop k (g @ [gk])))
      = (\<Sum>k = 1..<length g. prod_list (drop k g)) * gk" .
  from assms have "1 \<le> length g" by (cases g) simp_all
  then have "(\<Sum>k = 1..<Suc (length g). prod_list (drop k (g @ [gk])))
      = (\<Sum>k = 1..<length g. prod_list (drop k (g @ [gk]))) + prod_list (drop (length g) (g @ [gk]))"
    by (rule sum.atLeastLessThan_Suc)
  then have "(\<Sum>k = 1..<length (g @ [gk]). prod_list (drop k (g @ [gk])))
      = (\<Sum>k = 1..<length g. prod_list (drop k (g @ [gk]))) + gk"
    by simp
  with inner show ?thesis by (simp add: closed_form_def algebra_simps)
qed

lemma closed_form_substeps:
  "g \<noteq> [] \<Longrightarrow> closed_form c x g = substeps c x g"
proof (induction g rule: rev_induct)
  case Nil
  then show ?case by simp
next
  case (snoc gk g)
  show ?case
  proof (cases "g = []")
    case True
    then show ?thesis by (simp add: closed_form_def substeps_def)
  next
    case False
    with snoc.IH have "closed_form c x g = substeps c x g" by simp
    with False show ?thesis by (simp add: closed_form_snoc) (simp add: substeps_def)
  qed
qed

lemma g0_powr:
  assumes "0 < gamma" and "alpha \<noteq> 0"
  shows "g0 alpha gamma powr alpha = 2 / (1 + gamma powr alpha)"
proof -
  have pos: "0 < 2 / (1 + gamma powr alpha)"
    by (simp add: add_pos_nonneg)
  have "g0 alpha gamma powr alpha = (2 / (1 + gamma powr alpha)) powr (1 / alpha * alpha)"
    by (simp add: g0_def powr_powr)
  also from assms have "\<dots> = (2 / (1 + gamma powr alpha)) powr 1" by simp
  also from pos have "\<dots> = 2 / (1 + gamma powr alpha)" by simp
  finally show ?thesis .
qed

section \<open>Facts about the time evolution\<close>

lemma length_integers: "length (integers rng S M) = S"
  by (simp add: integers_def)

lemma nth_integers: "s < S \<Longrightarrow> integers rng S M ! s = map (\<lambda>m. rng (s * M + m)) [0..<M]"
  by (simp add: integers_def)

lemma length_choice: "length (choice rng p S M tau) = S"
  by (simp add: choice_def)

lemma nth_choice:
  "s < S \<Longrightarrow> choice rng p S M tau ! s
     = map (\<lambda>m. map (\<lambda>k. rng (p + (s * M + m) * tau + k)) [0..<tau]) [0..<M]"
  by (simp add: choice_def)

lemma length_set_column: "length v = length rows \<Longrightarrow> length (set_column t v rows) = length rows"
  by (simp add: set_column_def)

lemma nth_set_column:
  "length v = length rows \<Longrightarrow> s < length rows \<Longrightarrow> set_column t v rows ! s = (rows ! s)[t := v ! s]"
  by (simp add: set_column_def)

lemma evolve_0: "evolve S M tau dp c ini gs 0 = init_state S M dp ini"
  by (simp add: evolve_def)

lemma evolve_Suc:
  "evolve S M tau dp c ini gs (Suc k) = step S M tau c gs (evolve S M tau dp c ini gs k) (Suc k)"
  by (simp add: evolve_def)

lemma simulate_evolve:
  "1 \<le> dp \<Longrightarrow> simulate S M tau dp c ini gs = Inr (evolve S M tau dp c ini gs (dp - 1))"
  by (simp add: simulate_def evolve_def)

lemma pos_evolve: "pos (evolve S M tau dp c ini gs k) = k * (S * M * tau)"
  by (induction k) (simp_all add: evolve_0 evolve_Suc init_state_def step_def Let_def)

lemma length_current_evolve: "length (current (evolve S M tau dp c ini gs k)) = S"
  by (induction k)
     (simp_all add: evolve_0 evolve_Suc init_state_def step_def Let_def length_integers length_choice)

lemma row_current_evolve:
  "s < S \<Longrightarrow> current (evolve S M tau dp c ini gs k) ! s
     = map (\<lambda>m. cell_after S M tau c ini gs s m k) [0..<M]"
proof (induction k)
  case 0
  then show ?case by (simp add: evolve_0 init_state_def Let_def nth_integers)
next
  case (Suc k)
  let ?st = "evolve S M tau dp c ini gs k"
  have len: "length (current ?st) = S" by (rule length_current_evolve)
  from Suc have row: "current ?st ! s = map (\<lambda>m. cell_after S M tau c ini gs s m k) [0..<M]"
    by simp
  have "current (evolve S M tau dp c ini gs (Suc k)) ! s
      = map2 (update_cell c) (current ?st ! s) (choice gs (pos ?st) S M tau ! s)"
    using Suc.prems len by (simp add: evolve_Suc step_def Let_def length_choice)
  also have "\<dots> = map (\<lambda>m. cell_after S M tau c ini gs s m (Suc k)) [0..<M]"
    using Suc.prems by (simp add: row nth_choice pos_evolve zip_map_map map_zip_map2 list_eq_iff_nth_eq)
  finally show ?case .
qed

lemma length_N_evolve: "length (N (evolve S M tau dp c ini gs k)) = S"
  by (induction k)
     (simp_all add: evolve_0 evolve_Suc init_state_def step_def Let_def length_integers
        length_choice length_set_column length_current_evolve)

lemma N_evolve_Suc:
  assumes "s < S"
  shows "N (evolve S M tau dp c ini gs (Suc k)) ! s
     = (N (evolve S M tau dp c ini gs k) ! s)
         [Suc k := np_sum (map (\<lambda>m. cell_after S M tau c ini gs s m (Suc k)) [0..<M])]"
proof -
  let ?st = "evolve S M tau dp c ini gs k"
  let ?st' = "evolve S M tau dp c ini gs (Suc k)"
  have cur: "current ?st' = map2 (map2 (update_cell c)) (current ?st) (choice gs (pos ?st) S M tau)"
    by (simp add: evolve_Suc step_def Let_def)
  have "N ?st' = set_column (Suc k) (map np_sum (current ?st')) (N ?st)"
    by (simp add: evolve_Suc step_def Let_def)
  moreover have "length (map np_sum (current ?st')) = length (N ?st)"
    by (simp add: length_N_evolve length_current_evolve)
  ultimately have "N ?st' ! s = (N ?st ! s)[Suc k := map np_sum (current ?st') ! s]"
    using assms by (simp add: nth_set_column length_N_evolve)
  moreover have "map np_sum (current ?st') ! s = np_sum (current ?st' ! s)"
    using assms by (simp add: length_current_evolve)
  ultimately show ?thesis using assms by (simp add: row_current_evolve)
qed

lemma length_N_row_evolve:
  "s < S \<Longrightarrow> length (N (evolve S M tau dp c ini gs k) ! s) = dp"
proof (induction k)
  case 0
  then show ?case
    by (simp add: evolve_0 init_state_def Let_def nth_set_column length_integers)
next
  case (Suc k)
  then show ?case by (simp add: N_evolve_Suc)
qed

lemma N_evolve:
  "s < S \<Longrightarrow> t \<le> k \<Longrightarrow> k < dp \<Longrightarrow>
   N (evolve S M tau dp c ini gs k) ! s ! t
     = np_sum (map (\<lambda>m. cell_after S M tau c ini gs s m t) [0..<M])"
proof (induction k)
  case 0
  then show ?case
    by (simp add: evolve_0 init_state_def Let_def nth_set_column length_integers nth_integers)
next
  case (Suc k)
  show ?case
  proof (cases "t = Suc k")
    case True
    with Suc.prems show ?thesis by (simp add: N_evolve_Suc length_N_row_evolve)
  next
    case False
    with Suc.prems have "t \<le> k" and "k < dp" by simp_all
    with Suc.IH Suc.prems have "N (evolve S M tau dp c ini gs k) ! s ! t
        = np_sum (map (\<lambda>m. cell_after S M tau c ini gs s m t) [0..<M])" by simp
    with False Suc.prems show ?thesis by (simp add: N_evolve_Suc)
  qed
qed

lemma prod_list_real_pos: "\<forall>x\<in>set g. 0 < x \<Longrightarrow> 0 < prod_list (g::real list)"
  by (induction g) simp_all

lemma np_prod_pos: "\<forall>x\<in>set g. 0 < x \<Longrightarrow> 0 < np_prod (g::real list)"
  by (simp add: np_prod_real prod_list_real_pos)

lemma cumprod_from_pos:
  "0 < a \<Longrightarrow> \<forall>x\<in>set xs. 0 < x \<Longrightarrow> \<forall>y\<in>set (cumprod_from (a::real) xs). 0 < y"
proof (induction xs arbitrary: a)
  case Nil
  show ?case by simp
next
  case (Cons x xs)
  from Cons.prems have "0 < a * x" by simp
  moreover from Cons.prems have "\<forall>x\<in>set xs. 0 < x" by simp
  ultimately have "\<forall>y\<in>set (cumprod_from (a * x) xs). 0 < y" by (rule Cons.IH)
  with \<open>0 < a * x\<close> show ?case by simp
qed

lemma np_cumprod_pos: "\<forall>x\<in>set xs. 0 < x \<Longrightarrow> \<forall>y\<in>set (np_cumprod (xs::real list)). 0 < y"
proof (cases xs)
  case Nil
  then show ?thesis by simp
next
  case (Cons x ys)
  assume "\<forall>x\<in>set xs. 0 < x"
  with Cons have "0 < x" and "\<forall>y\<in>set ys. 0 < y" by simp_all
  then have "\<forall>y\<in>set (cumprod_from x ys). 0 < y" by (rule cumprod_from_pos)
  with \<open>0 < x\<close> Cons show ?thesis by simp
qed

lemma np_sum_nonneg: "\<forall>x\<in>set xs. 0 < x \<Longrightarrow> 0 \<le> np_sum (xs::real list)"
  by (simp add: np_sum_real sum_list_nonneg less_imp_le)

lemma np_sum_pos: "xs \<noteq> [] \<Longrightarrow> \<forall>x\<in>set xs. 0 < x \<Longrightarrow> 0 < np_sum (xs::real list)"
proof (cases xs)
  case Nil
  assume "xs \<noteq> []"
  with Nil show ?thesis by simp
next
  case (Cons x ys)
  assume "\<forall>x\<in>set xs. 0 < x"
  with Cons have "0 < x" and "0 \<le> sum_list ys" by (simp_all add: sum_list_nonneg less_imp_le)
  then have "0 < x + sum_list ys" by (rule add_pos_nonneg)
  with Cons show ?thesis by (simp add: np_sum_real)
qed

lemma update_cell_pos:
  assumes "0 < c" and "0 < x" and "\<forall>y\<in>set g. 0 < (y::real)"
  shows "0 < update_cell c x g"
proof -
  from assms have "0 < x * np_prod g" by (simp add: np_prod_pos)
  moreover have "\<forall>y\<in>set (rev (drop 1 g)). 0 < y"
    using assms(3) by (auto dest: in_set_dropD)
  then have "0 \<le> np_sum (np_cumprod (rev (drop 1 g)))"
    by (intro np_sum_nonneg np_cumprod_pos)
  with assms have "0 \<le> c * np_sum (np_cumprod (rev (drop 1 g)))" by simp
  ultimately show ?thesis using assms(1) by (simp add: update_cell_def add_pos_nonneg)
qed

lemma cell_index_bound: "s < S \<Longrightarrow> m < M \<Longrightarrow> s * M + m < S * (M::nat)"
proof -
  assume a: "s < S" "m < M"
  then have "s * M + m < s * M + M" by simp
  also have "\<dots> = Suc s * M" by simp
  also from a have "\<dots> \<le> S * M" by (intro mult_le_mono1) simp
  finally show ?thesis .
qed

lemma cell_after_pos:
  assumes "0 < (c::real)" and "\<forall>k. 0 < gs k" and "\<forall>k<S * M. 0 < ini k" and "s < S" and "m < M"
  shows "0 < cell_after S M tau c ini gs s m k"
proof (induction k)
  case 0
  from assms(4,5) have "s * M + m < S * M" by (rule cell_index_bound)
  with assms(3) show ?case by simp
next
  case (Suc k)
  with assms(1,2) show ?case by (simp add: update_cell_pos)
qed

lemma nth_growth_rates:
  assumes "s < length rows" and "Suc t < length (rows ! s)"
  shows "growth_rates rows ! s ! t = fdiv (rows ! s ! Suc t) (rows ! s ! t)"
    and "length (growth_rates rows ! s) = length (rows ! s) - 1"
  using assms by (simp_all add: growth_rates_def nth_butlast)

lemma overflow_threshold_large: "1000 < overflow_threshold"
  by (simp add: overflow_threshold_def)

lemma underflow_threshold_small: "underflow_threshold < 1 / 1000"
  by (simp add: underflow_threshold_def)

lemma float64_small:
  assumes "\<bar>r\<bar> \<le> 1000" and "r = 0 \<or> 1 / 1000 \<le> \<bar>r\<bar>"
  shows "float64 r = Fin r"
proof (cases "r = 0")
  case True
  with overflow_threshold_large show ?thesis
    by (simp add: float64_def underflow_threshold_def)
next
  case False
  with assms(2) underflow_threshold_small have "\<not> \<bar>r\<bar> \<le> underflow_threshold"
    by linarith
  moreover from assms(1) overflow_threshold_large have "\<not> overflow_threshold \<le> r"
    by linarith
  moreover from assms(1) overflow_threshold_large have "\<not> r \<le> - overflow_threshold"
    by linarith
  ultimately show ?thesis by (simp only: float64_def if_False)
qed

lemma replicate_numeral: "replicate (numeral n) x = x # replicate (pred_numeral n) x"
  by (simp add: numeral_eq_Suc)

lemmas fval_arith = zero_fval_def one_fval_def plus_fval_def times_fval_def float64_small

lemmas run_simps = run_model_def growth_rates_def simulate_def step_def init_state_def
  integers_def choice_def set_column_def update_cell_def upt_rec constant_generator_def
  replicate_numeral

lemma site_sum_pos:
  assumes "0 < (c::real)" and "\<forall>k. 0 < gs k" and "\<forall>k<S * M. 0 < ini k" and "0 < M" and "s < S"
  shows "0 < np_sum (map (\<lambda>m. cell_after S M tau c ini gs s m t) [0..<M])"
proof (rule np_sum_pos)
  from assms(4) show "map (\<lambda>m. cell_after S M tau c ini gs s m t) [0..<M] \<noteq> []" by simp
  show "\<forall>x\<in>set (map (\<lambda>m. cell_after S M tau c ini gs s m t) [0..<M]). 0 < x"
    using assms by (auto intro: cell_after_pos)
qed

text \<open>In exact real arithmetic the abundances stay positive without any further condition.\<close>

lemma abundances_positive_exact:
  assumes "0 < (c::real)" and "\<forall>k. 0 < gs k" and "\<forall>k<S * M. 0 < ini k" and "0 < M"
    and "1 \<le> dp"
  shows "simulate S M tau dp c ini gs = Inr (evolve S M tau dp c ini gs (dp - 1))
     \<and> (\<forall>k<dp. \<forall>s<S.
          (\<forall>m<M. 0 < current (evolve S M tau dp c ini gs k) ! s ! m)
          \<and> 0 < N (evolve S M tau dp c ini gs k) ! s ! k
          \<and> 0 < N (evolve S M tau dp c ini gs (dp - 1)) ! s ! k)"
proof (intro conjI allI impI)
  from assms(5) show "simulate S M tau dp c ini gs = Inr (evolve S M tau dp c ini gs (dp - 1))"
    by (rule simulate_evolve)
next
  fix k s m
  assume "k < dp" and "s < S" and "m < M"
  with assms show "0 < current (evolve S M tau dp c ini gs k) ! s ! m"
    by (simp add: row_current_evolve cell_after_pos)
next
  fix k s
  assume "k < dp" and "s < S"
  with assms show "0 < N (evolve S M tau dp c ini gs k) ! s ! k"
    by (simp add: N_evolve site_sum_pos)
next
  fix k s
  assume "k < dp" and "s < S"
  with assms show "0 < N (evolve S M tau dp c ini gs (dp - 1)) ! s ! k"
    by (simp add: N_evolve site_sum_pos)
qed

section \<open>Facts about the float64 view\<close>

lemma overflow_threshold_pos: "0 < overflow_threshold"
  using overflow_threshold_large by simp

lemma underflow_threshold_pos: "0 < underflow_threshold"
  by (simp add: underflow_threshold_def)

lemma float64_above:
  "underflow_threshold < r \<Longrightarrow> float64 r = (if overflow_threshold \<le> r then PInf else Fin r)"
  using overflow_threshold_pos underflow_threshold_pos by (simp add: float64_def)

lemma float64_underflow:
  assumes "0 \<le> r" and "r \<le> underflow_threshold"
  shows "float64 r = Fin 0"
proof -
  from assms(2) underflow_threshold_small overflow_threshold_large
  have "\<not> overflow_threshold \<le> r" by linarith
  moreover from assms(1) overflow_threshold_large
  have "\<not> r \<le> - overflow_threshold" by linarith
  moreover from assms have "\<bar>r\<bar> \<le> underflow_threshold" by simp
  ultimately show ?thesis by (simp only: float64_def if_False if_True)
qed

lemma fpositive_float64: "underflow_threshold < r \<Longrightarrow> fpositive (float64 r)"
  by (simp add: float64_above)

lemma fnonneg_float64: "0 \<le> r \<Longrightarrow> fnonneg (float64 r)"
  using overflow_threshold_pos by (simp add: float64_def)

lemma fpositive_fnonneg: "fpositive x \<Longrightarrow> fnonneg x"
  using underflow_threshold_pos by (cases x) simp_all

lemma fnonneg_plus: "fnonneg x \<Longrightarrow> fnonneg y \<Longrightarrow> fnonneg (x + y)"
  by (cases x; cases y) (simp_all add: plus_fval_def fnonneg_float64)

lemma fnonneg_times_finite:
  "fnonneg x \<Longrightarrow> ffinite y \<Longrightarrow> fpositive y \<Longrightarrow> fnonneg (x * y)"
  using underflow_threshold_pos
  by (cases x; cases y) (simp_all add: times_fval_def fnonneg_float64)

lemma finite_times_fnonneg:
  "ffinite x \<Longrightarrow> fpositive x \<Longrightarrow> fnonneg y \<Longrightarrow> fnonneg (x * y)"
  using underflow_threshold_pos
  by (cases x; cases y) (simp_all add: times_fval_def fnonneg_float64)

lemma fpositive_plus: "fpositive x \<Longrightarrow> fpositive y \<Longrightarrow> fpositive (x + y)"
  using underflow_threshold_pos
  by (cases x; cases y) (simp_all add: plus_fval_def fpositive_float64)

lemma fnonneg_plus_positive: "fnonneg x \<Longrightarrow> fpositive y \<Longrightarrow> fpositive (x + y)"
  by (cases x; cases y) (simp_all add: plus_fval_def fpositive_float64)

lemma PInf_plus_fnonneg: "fnonneg y \<Longrightarrow> PInf + y = PInf"
  by (cases y) (simp_all add: plus_fval_def)

lemma fnonneg_foldl_times:
  "fnonneg a \<Longrightarrow> \<forall>x\<in>set xs. ffinite x \<and> fpositive x \<Longrightarrow> fnonneg (foldl (*) a xs)"
  by (induction xs arbitrary: a) (simp_all add: fnonneg_times_finite)

lemma fnonneg_foldl_plus:
  "fnonneg a \<Longrightarrow> \<forall>x\<in>set xs. fnonneg x \<Longrightarrow> fnonneg (foldl (+) a xs)"
  by (induction xs arbitrary: a) (simp_all add: fnonneg_plus)

lemma fpositive_foldl_plus:
  "fpositive a \<Longrightarrow> \<forall>x\<in>set xs. fpositive x \<Longrightarrow> fpositive (foldl (+) a xs)"
  by (induction xs arbitrary: a) (simp_all add: fpositive_plus)

lemma fnonneg_np_prod: "\<forall>x\<in>set g. ffinite x \<and> fpositive x \<Longrightarrow> fnonneg (np_prod g)"
  by (cases g) (simp_all add: one_fval_def fnonneg_foldl_times fpositive_fnonneg)

lemma fnonneg_np_sum: "\<forall>x\<in>set xs. fnonneg x \<Longrightarrow> fnonneg (np_sum xs)"
  by (cases xs) (simp_all add: zero_fval_def fnonneg_foldl_plus)

lemma fpositive_np_sum: "xs \<noteq> [] \<Longrightarrow> \<forall>x\<in>set xs. fpositive x \<Longrightarrow> fpositive (np_sum xs)"
  by (cases xs) (simp_all add: fpositive_foldl_plus)

lemma fnonneg_cumprod_from:
  "fnonneg a \<Longrightarrow> \<forall>x\<in>set xs. ffinite x \<and> fpositive x
     \<Longrightarrow> \<forall>y\<in>set (cumprod_from a xs). fnonneg y"
proof (induction xs arbitrary: a)
  case Nil
  show ?case by simp
next
  case (Cons x xs)
  from Cons.prems have p: "fnonneg (a * x)" by (simp add: fnonneg_times_finite)
  moreover from Cons.prems have "\<forall>x\<in>set xs. ffinite x \<and> fpositive x" by simp
  ultimately have "\<forall>y\<in>set (cumprod_from (a * x) xs). fnonneg y" by (rule Cons.IH)
  with p show ?case by simp
qed

lemma fnonneg_np_cumprod:
  "\<forall>x\<in>set xs. ffinite x \<and> fpositive x \<Longrightarrow> \<forall>y\<in>set (np_cumprod xs). fnonneg y"
proof (cases xs)
  case Nil
  then show ?thesis by simp
next
  case (Cons x ys)
  assume "\<forall>x\<in>set xs. ffinite x \<and> fpositive x"
  with Cons have "fnonneg x" and "\<forall>y\<in>set ys. ffinite y \<and> fpositive y"
    by (simp_all add: fpositive_fnonneg)
  then have "\<forall>y\<in>set (cumprod_from x ys). fnonneg y" by (rule fnonneg_cumprod_from)
  with \<open>fnonneg x\<close> Cons show ?thesis by simp
qed

text \<open>The forcing part of the update is never negative, nor \<open>nan\<close>.\<close>

lemma fnonneg_forcing:
  assumes "ffinite c" and "fpositive c" and "\<forall>y\<in>set g. ffinite y \<and> fpositive y"
  shows "fnonneg (c * np_sum (np_cumprod (rev (drop 1 g))))"
proof -
  have "\<forall>y\<in>set (rev (drop 1 g)). ffinite y \<and> fpositive y"
    using assms(3) by (auto dest: in_set_dropD)
  then have "\<forall>y\<in>set (np_cumprod (rev (drop 1 g))). fnonneg y"
    by (rule fnonneg_np_cumprod)
  then have "fnonneg (np_sum (np_cumprod (rev (drop 1 g))))"
    by (rule fnonneg_np_sum)
  with assms(1,2) show ?thesis by (rule finite_times_fnonneg)
qed

lemma fpositive_update_cell:
  assumes "ffinite c" and "fpositive c" and "ffinite x" and "fpositive x"
    and "\<forall>y\<in>set g. ffinite y \<and> fpositive y"
  shows "fpositive (update_cell c x g)"
proof -
  from assms(5) have "fnonneg (np_prod g)" by (rule fnonneg_np_prod)
  with assms(3,4) have "fnonneg (x * np_prod g)" by (rule finite_times_fnonneg)
  moreover from assms(1,2,5) have "fnonneg (c * np_sum (np_cumprod (rev (drop 1 g))))"
    by (rule fnonneg_forcing)
  ultimately have "fnonneg (x * np_prod g + c * np_sum (np_cumprod (rev (drop 1 g))))"
    by (rule fnonneg_plus)
  then have "fpositive (x * np_prod g + c * np_sum (np_cumprod (rev (drop 1 g))) + c)"
    using assms(2) by (rule fnonneg_plus_positive)
  then show ?thesis by (simp only: update_cell_def)
qed

lemma update_cell_overflow:
  assumes "ffinite c" and "fpositive c" and "\<forall>y\<in>set g. ffinite y \<and> fpositive y"
    and "x * np_prod g = PInf"
  shows "update_cell c x g = PInf"
proof -
  from assms(1,2,3) have "fnonneg (c * np_sum (np_cumprod (rev (drop 1 g))))"
    by (rule fnonneg_forcing)
  then have "PInf + c * np_sum (np_cumprod (rev (drop 1 g))) = PInf"
    by (rule PInf_plus_fnonneg)
  moreover from assms(2) have "PInf + c = PInf"
    by (intro PInf_plus_fnonneg fpositive_fnonneg)
  ultimately show ?thesis by (simp only: update_cell_def assms(4))
qed

lemma update_cell_nan: "np_prod g = Fin 0 \<Longrightarrow> update_cell c PInf g = NaN"
  by (simp add: update_cell_def times_fval_def plus_fval_def)

text \<open>
  While no cell has left the finite range, every cell is a positive float64 value or
  \<open>+inf\<close>.
\<close>

lemma fpositive_cell_after:
  assumes "ffinite c" and "fpositive c" and "\<forall>k. ffinite (gs k) \<and> fpositive (gs k)"
    and "\<forall>k<S * M. fpositive (ini k)" and "s < S" and "m < M"
  shows "(\<forall>j<k. ffinite (cell_after S M tau c ini gs s m j))
     \<Longrightarrow> fpositive (cell_after S M tau c ini gs s m k)"
proof (induction k)
  case 0
  from assms(5,6) have "s * M + m < S * M" by (rule cell_index_bound)
  with assms(4) show ?case by simp
next
  case (Suc k)
  from Suc.prems have fin: "ffinite (cell_after S M tau c ini gs s m k)" by simp
  from Suc.prems have "\<forall>j<k. ffinite (cell_after S M tau c ini gs s m j)" by simp
  then have "fpositive (cell_after S M tau c ini gs s m k)" by (rule Suc.IH)
  with fin assms(1,2,3) show ?case by (simp add: fpositive_update_cell)
qed

text \<open>A value that is not finite stays so through the arithmetic.\<close>

lemma times_not_finite: "\<not> ffinite x \<Longrightarrow> \<not> ffinite (x * y)"
  by (cases x; cases y) (simp_all add: times_fval_def)

lemma plus_not_finite_left: "\<not> ffinite x \<Longrightarrow> \<not> ffinite (x + y)"
  by (cases x; cases y) (simp_all add: plus_fval_def)

lemma plus_not_finite_right: "\<not> ffinite y \<Longrightarrow> \<not> ffinite (x + y)"
  by (cases x; cases y) (simp_all add: plus_fval_def)

lemma update_cell_not_finite: "\<not> ffinite x \<Longrightarrow> \<not> ffinite (update_cell c x g)"
  by (simp add: update_cell_def times_not_finite plus_not_finite_left)

lemma cell_after_not_finite:
  assumes "\<not> ffinite (cell_after S M tau c ini gs s m j)"
  shows "\<not> ffinite (cell_after S M tau c ini gs s m (j + n))"
proof (induction n)
  case 0
  from assms show ?case by simp
next
  case (Suc n)
  then show ?case by (simp add: update_cell_not_finite)
qed

lemma foldl_plus_not_finite:
  "\<not> ffinite a \<or> (\<exists>x\<in>set xs. \<not> ffinite x) \<Longrightarrow> \<not> ffinite (foldl (+) a xs)"
proof (induction xs arbitrary: a)
  case Nil
  then show ?case by simp
next
  case (Cons x xs)
  from Cons.prems have "\<not> ffinite (a + x) \<or> (\<exists>y\<in>set xs. \<not> ffinite y)"
    by (auto simp: plus_not_finite_left plus_not_finite_right)
  then have "\<not> ffinite (foldl (+) (a + x) xs)" by (rule Cons.IH)
  then show ?case by simp
qed

lemma np_sum_not_finite: "x \<in> set xs \<Longrightarrow> \<not> ffinite x \<Longrightarrow> \<not> ffinite (np_sum xs)"
proof (cases xs)
  case Nil
  assume "x \<in> set xs"
  with Nil show ?thesis by simp
next
  case (Cons y ys)
  assume "x \<in> set xs" and "\<not> ffinite x"
  with Cons have "\<not> ffinite y \<or> (\<exists>z\<in>set ys. \<not> ffinite z)" by auto
  then have "\<not> ffinite (foldl (+) y ys)" by (rule foldl_plus_not_finite)
  with Cons show ?thesis by simp
qed

text \<open>Repeated doubling overflows, repeated halving underflows.\<close>

lemma foldl_times_PInf: "foldl (*) PInf (replicate n (Fin 2)) = PInf"
  by (induction n) (simp_all add: times_fval_def)

lemma foldl_doubling:
  "1 \<le> a \<Longrightarrow> a < overflow_threshold \<Longrightarrow>
   foldl (*) (Fin a) (replicate n (Fin 2)) = float64 (a * 2 ^ n)"
proof (induction n arbitrary: a)
  case 0
  have "underflow_threshold < 1" by (simp add: underflow_threshold_def)
  with "0.prems" show ?case by (simp add: float64_above)
next
  case (Suc n)
  have u: "underflow_threshold < 1" by (simp add: underflow_threshold_def)
  from Suc.prems u have step: "Fin a * Fin 2 = (if overflow_threshold \<le> a * 2 then PInf else Fin (a * 2))"
    by (simp add: times_fval_def float64_above)
  show ?case
  proof (cases "overflow_threshold \<le> a * 2")
    case True
    from Suc.prems have "a * 2 \<le> a * 2 * 2 ^ n" by simp
    with True have "overflow_threshold \<le> a * 2 ^ Suc n" by (simp add: mult.assoc)
    moreover have "underflow_threshold < a * 2 ^ Suc n"
    proof -
      have "(1::real) \<le> 2 ^ Suc n" by (rule one_le_power) simp
      with Suc.prems have "1 * 1 \<le> a * 2 ^ Suc n" by (intro mult_mono) simp_all
      with u show ?thesis by simp
    qed
    ultimately have "float64 (a * 2 ^ Suc n) = PInf" by (simp add: float64_above)
    with True show ?thesis by (simp add: step foldl_times_PInf)
  next
    case False
    from False Suc.prems
    have "foldl (*) (Fin (a * 2)) (replicate n (Fin 2)) = float64 (a * 2 * 2 ^ n)"
      by (intro Suc.IH) simp_all
    with False show ?thesis by (simp add: step mult.assoc)
  qed
qed

lemma np_prod_doubling:
  assumes "overflow_threshold \<le> 2 * 2 ^ n"
  shows "np_prod (replicate (Suc n) (Fin 2)) = PInf"
proof -
  have "np_prod (replicate (Suc n) (Fin 2)) = foldl (*) (Fin 2) (replicate n (Fin 2))"
    by simp
  also have "\<dots> = float64 (2 * 2 ^ n)"
    by (rule foldl_doubling) (simp_all add: overflow_threshold_def)
  also from assms have "\<dots> = PInf" by (simp add: float64_def)
  finally show ?thesis .
qed

lemma foldl_times_zero: "foldl (*) (Fin 0) (replicate n (Fin (1 / 2))) = Fin 0"
  by (induction n) (simp_all add: times_fval_def float64_small)

lemma foldl_halving:
  "underflow_threshold < a \<Longrightarrow> a \<le> 1 \<Longrightarrow>
   foldl (*) (Fin a) (replicate n (Fin (1 / 2))) = float64 (a / 2 ^ n)"
proof (induction n arbitrary: a)
  case 0
  with overflow_threshold_large show ?case by (simp add: float64_above)
next
  case (Suc n)
  from Suc.prems overflow_threshold_large underflow_threshold_pos
  have step: "Fin a * Fin (1 / 2) = (if a / 2 \<le> underflow_threshold then Fin 0 else Fin (a / 2))"
    by (simp add: times_fval_def float64_def)
  show ?case
  proof (cases "a / 2 \<le> underflow_threshold")
    case True
    from Suc.prems underflow_threshold_pos have "0 < a" by simp
    then have "a / 2 ^ Suc n \<le> a / 2"
      by (simp add: field_simps self_le_power)
    with True have "a / 2 ^ Suc n \<le> underflow_threshold" by simp
    moreover from \<open>0 < a\<close> have "0 \<le> a / 2 ^ Suc n" by simp
    ultimately have "float64 (a / 2 ^ Suc n) = Fin 0" by (intro float64_underflow)
    with True show ?thesis by (simp add: step foldl_times_zero)
  next
    case False
    from False Suc.prems
    have "foldl (*) (Fin (a / 2)) (replicate n (Fin (1 / 2))) = float64 (a / 2 / 2 ^ n)"
      by (intro Suc.IH) simp_all
    with False show ?thesis by (simp add: step divide_divide_eq_left)
  qed
qed

lemma np_prod_halving:
  assumes "1 / 2 / 2 ^ n \<le> underflow_threshold"
  shows "np_prod (replicate (Suc n) (Fin (1 / 2))) = Fin 0"
proof -
  have "np_prod (replicate (Suc n) (Fin (1 / 2))) = foldl (*) (Fin (1 / 2)) (replicate n (Fin (1 / 2)))"
    by simp
  also have "\<dots> = float64 (1 / 2 / 2 ^ n)"
    by (rule foldl_halving) (simp_all add: underflow_threshold_def)
  also from assms have "\<dots> = Fin 0" by (intro float64_underflow) simp_all
  finally show ?thesis .
qed

text \<open>The draws of one cell in one macro step, for the generators used as inputs below.\<close>

lemma constant_draws:
  "map (\<lambda>j. constant_generator x (f j)) [0..<tau] = replicate tau x"
proof -
  have "map (\<lambda>j. constant_generator x (f j)) [0..<tau] = replicate (length [0..<tau]) x"
    unfolding constant_generator_def by (rule map_replicate_const)
  then show ?thesis by (simp only: length_upt diff_zero)
qed

lemma switching_draws_before:
  "p + tau \<le> n \<Longrightarrow> map (\<lambda>j. switching_generator n x y (p + j)) [0..<tau] = replicate tau x"
  by (simp add: switching_generator_def list_eq_iff_nth_eq)

lemma switching_draws_after:
  "n \<le> p \<Longrightarrow> map (\<lambda>j. switching_generator n x y (p + j)) [0..<tau] = replicate tau y"
  by (simp add: switching_generator_def list_eq_iff_nth_eq)

text \<open>A run with one species and one site, step by step.\<close>

lemma init_single_cell:
  "init_state (Suc 0) (Suc 0) dp ini
     = \<lparr>current = [[ini 0]], N = [(replicate dp 0)[0 := ini 0]], pos = 0\<rparr>"
  by (simp add: init_state_def integers_def set_column_def)

lemma step_single_cell:
  "step 1 1 tau c gs \<lparr>current = [[x]], N = [row], pos = p\<rparr> t
     = \<lparr>current = [[update_cell c x (map (\<lambda>j. gs (p + j)) [0..<tau])]],
        N = [row[t := update_cell c x (map (\<lambda>j. gs (p + j)) [0..<tau])]],
        pos = p + tau\<rparr>"
  by (simp add: step_def choice_def set_column_def)

lemma doubling_overflows:
  assumes "overflow_threshold \<le> 2 * 2 ^ n"
  shows "update_cell (Fin 1) (Fin 1) (replicate (Suc n) (Fin 2)) = PInf"
    and "update_cell (Fin 1) PInf (replicate (Suc n) (Fin 2)) = PInf"
proof -
  have u: "underflow_threshold < 1" and v: "underflow_threshold < 2"
    by (simp_all add: underflow_threshold_def)
  from assms have p: "np_prod (replicate (Suc n) (Fin 2)) = PInf" by (rule np_prod_doubling)
  show "update_cell (Fin 1) (Fin 1) (replicate (Suc n) (Fin 2)) = PInf"
  proof (rule update_cell_overflow)
    show "Fin 1 * np_prod (replicate (Suc n) (Fin 2)) = PInf"
      by (simp only: p) (simp add: times_fval_def)
  qed (use u v in simp_all)
  show "update_cell (Fin 1) PInf (replicate (Suc n) (Fin 2)) = PInf"
  proof (rule update_cell_overflow)
    show "PInf * np_prod (replicate (Suc n) (Fin 2)) = PInf"
      by (simp only: p) (simp add: times_fval_def)
  qed (use u v in simp_all)
qed

lemma halving_after_overflow:
  assumes "1 / 2 / 2 ^ n \<le> underflow_threshold"
  shows "update_cell c PInf (replicate (Suc n) (Fin (1 / 2))) = NaN"
  using assms by (intro update_cell_nan np_prod_halving)

section \<open>Facts about the spatial sweep\<close>

lemma update_site_eq:
  "update_site L d c g t allxs (i, j)
     = allxs((i * int L + j, t) :=
         diffuse L d c (g (i * int L + j)) (\<lambda>(a, b). allxs (a * int L + b, t - 1)) i j)"
  by (simp add: Let_def diffuse_def)

declare update_site.simps [simp del]

lemma sweep_Nil: "sweep L d c g t [] allxs = allxs"
  by (simp add: sweep_def)

lemma sweep_snoc:
  "sweep L d c g t (order @ [p]) allxs = update_site L d c g t (sweep L d c g t order allxs) p"
  by (simp add: sweep_def)

lemma sweep_other_column:
  "t' \<noteq> t \<Longrightarrow> sweep L d c g t order allxs (x, t') = allxs (x, t')"
proof (induction order rule: rev_induct)
  case Nil
  show ?case by (simp add: sweep_Nil)
next
  case (snoc p order)
  obtain i j where p: "p = (i, j)" by (cases p)
  from snoc show ?case by (simp add: sweep_snoc p update_site_eq)
qed

lemma row_decode:
  assumes "0 \<le> j" and "j < int L"
  shows "(i * int L + j) div int L = i" and "(i * int L + j) mod int L = j"
  using assms by simp_all

lemma row_encode: "x div int L = i \<Longrightarrow> x mod int L = j \<Longrightarrow> x = i * int L + j"
  by auto

lemma sweep_written:
  assumes "1 \<le> t" and "\<forall>p\<in>set order. 0 \<le> snd p \<and> snd p < int L"
  shows "sweep L d c g t order allxs (x, t)
     = (if (x div int L, x mod int L) \<in> set order
        then diffuse L d c (g x) (\<lambda>(a, b). allxs (a * int L + b, t - 1)) (x div int L) (x mod int L)
        else allxs (x, t))"
  using assms(2)
proof (induction order rule: rev_induct)
  case Nil
  show ?case by (simp add: sweep_Nil)
next
  case (snoc p order)
  obtain i j where p: "p = (i, j)" by (cases p)
  from snoc.prems p have j: "0 \<le> j" "j < int L" by simp_all
  from snoc.prems have valid: "\<forall>p\<in>set order. 0 \<le> snd p \<and> snd p < int L" by simp
  let ?A = "sweep L d c g t order allxs"
  from assms(1) have "t - 1 \<noteq> t" by simp
  then have old: "(\<lambda>(a, b). ?A (a * int L + b, t - 1)) = (\<lambda>(a, b). allxs (a * int L + b, t - 1))"
    by (simp add: sweep_other_column)
  have upd: "sweep L d c g t (order @ [(i, j)]) allxs
      = ?A((i * int L + j, t) :=
          diffuse L d c (g (i * int L + j)) (\<lambda>(a, b). allxs (a * int L + b, t - 1)) i j)"
    by (simp only: sweep_snoc update_site_eq old)
  show ?case
  proof (cases "x = i * int L + j")
    case True
    with j have "x div int L = i" and "x mod int L = j" by (simp_all add: row_decode)
    with True show ?thesis by (simp add: p upd)
  next
    case False
    then have ne: "(x div int L, x mod int L) \<noteq> (i, j)" by (auto dest: row_encode)
    from False have "sweep L d c g t (order @ [(i, j)]) allxs (x, t) = ?A (x, t)"
      by (simp add: upd)
    also have "\<dots> = (if (x div int L, x mod int L) \<in> set order
        then diffuse L d c (g x) (\<lambda>(a, b). allxs (a * int L + b, t - 1)) (x div int L) (x mod int L)
        else allxs (x, t))"
      by (rule snoc.IH [OF valid])
    also from ne have "\<dots> = (if (x div int L, x mod int L) \<in> set (order @ [(i, j)])
        then diffuse L d c (g x) (\<lambda>(a, b). allxs (a * int L + b, t - 1)) (x div int L) (x mod int L)
        else allxs (x, t))"
      by auto
    finally show ?thesis by (simp only: p)
  qed
qed

lemma sweep_order_independent:
  assumes "1 \<le> t" and "\<forall>p\<in>set order. 0 \<le> snd p \<and> snd p < int L" and "set order' = set order"
  shows "sweep L d c g t order' allxs = sweep L d c g t order allxs"
proof
  fix k :: "int \<times> nat"
  obtain x t' where k: "k = (x, t')" by (cases k)
  from assms(2,3) have valid': "\<forall>p\<in>set order'. 0 \<le> snd p \<and> snd p < int L" by simp
  show "sweep L d c g t order' allxs k = sweep L d c g t order allxs k"
  proof (cases "t' = t")
    case True
    with assms(1,3) show ?thesis
      by (simp add: k sweep_written [OF assms(1) assms(2)] sweep_written [OF assms(1) valid'])
  next
    case False
    then show ?thesis by (simp add: k sweep_other_column)
  qed
qed

lemma set_sites: "set (sites L) = {(int i, int j) | i j. i < L \<and> j < L}"
  by (auto simp: sites_def)

lemma sites_valid: "\<forall>p\<in>set (sites L). 0 \<le> snd p \<and> snd p < int L"
  by (auto simp: set_sites)

lemma spatial_evolve_0:
  "spatial_evolve order L c d rng np_random 0 = (init_lattice L np_random, 0)"
  by (simp add: spatial_evolve_def)

lemma spatial_evolve_Suc:
  "spatial_evolve order L c d rng np_random (Suc k)
     = spatial_step L d c rng order (spatial_evolve order L c d rng np_random k) (Suc k)"
  by (simp add: spatial_evolve_def)

lemma spatial_in_order_evolve:
  "1 \<le> dp \<Longrightarrow> spatial_in_order order L dp c d rng np_random
     = Inr (fst (spatial_evolve order L c d rng np_random (dp - 1)))"
  by (simp add: spatial_in_order_def spatial_evolve_def)

lemma snd_spatial_evolve: "snd (spatial_evolve order L c d rng np_random k) = k * (L * L)"
  by (induction k) (simp_all add: spatial_evolve_0 spatial_evolve_Suc spatial_step_def)

lemma fst_spatial_evolve_Suc:
  "fst (spatial_evolve order L c d rng np_random (Suc k))
     = sweep L d c (\<lambda>ind. rng (k * (L * L) + nat ind)) (Suc k) (order (Suc k))
         (fst (spatial_evolve order L c d rng np_random k))"
  by (simp add: spatial_evolve_Suc spatial_step_def snd_spatial_evolve)

lemma column_stable:
  "t \<le> k \<Longrightarrow> fst (spatial_evolve order L c d rng np_random (k + n)) (x, t)
     = fst (spatial_evolve order L c d rng np_random k) (x, t)"
  by (induction n) (simp_all add: fst_spatial_evolve_Suc sweep_other_column)

lemma column_final:
  assumes "t \<le> k" and "k \<le> k'"
  shows "fst (spatial_evolve order L c d rng np_random k') (x, t)
     = fst (spatial_evolve order L c d rng np_random k) (x, t)"
proof -
  from assms(2) have "k' = k + (k' - k)" by simp
  then show ?thesis using column_stable [OF assms(1)] by metis
qed

lemma spatial_evolve_order_independent:
  assumes "\<forall>u. set (order u) = set (sites L)"
  shows "spatial_evolve order L c d rng np_random k
     = spatial_evolve (\<lambda>u. sites L) L c d rng np_random k"
proof (induction k)
  case 0
  show ?case by (simp add: spatial_evolve_0)
next
  case (Suc k)
  have "sweep L d c (\<lambda>ind. rng (k * (L * L) + nat ind)) (Suc k) (order (Suc k))
          (fst (spatial_evolve order L c d rng np_random k))
      = sweep L d c (\<lambda>ind. rng (k * (L * L) + nat ind)) (Suc k) (sites L)
          (fst (spatial_evolve order L c d rng np_random k))"
    by (rule sweep_order_independent) (simp_all add: sites_valid assms)
  with Suc show ?case
    by (simp add: spatial_evolve_Suc spatial_step_def snd_spatial_evolve)
qed

lemma site_row: "nat (int i * int L + int j) = i * L + j"
proof -
  have "int i * int L + int j = int (i * L + j)" by simp
  then show ?thesis by (simp only: nat_int)
qed

lemma row_bounds:
  assumes "a < int L" and "0 \<le> a" and "0 \<le> b" and "b < int L"
  shows "0 \<le> a * int L + b" and "a * int L + b < int (L * L)"
proof -
  from assms show "0 \<le> a * int L + b" by simp
  from assms have "a + 1 \<le> int L" by simp
  with assms have "(a + 1) * int L \<le> int L * int L" by (intro mult_right_mono) simp_all
  moreover from assms have "a * int L + b < (a + 1) * int L" by (simp add: algebra_simps)
  ultimately show "a * int L + b < int (L * L)" by simp
qed

lemma cell_written:
  assumes "1 \<le> t" and "t \<le> k" and "i < L" and "j < L"
    and "set (order t) = set (sites L)"
  shows "fst (spatial_evolve order L c d rng np_random k) (int i * int L + int j, t)
     = diffuse L d c (rng ((t - 1) * (L * L) + (i * L + j)))
         (\<lambda>(a, b). fst (spatial_evolve order L c d rng np_random k) (a * int L + b, t - 1))
         (int i) (int j)"
proof -
  let ?A = "\<lambda>k. fst (spatial_evolve order L c d rng np_random k)"
  let ?x = "int i * int L + int j"
  from assms(1) obtain u where t: "t = Suc u" by (cases t) simp_all
  from assms(4) have dec: "?x div int L = int i" "?x mod int L = int j" by simp_all
  from assms(3,4) have mem: "(int i, int j) \<in> set (order t)"
    by (auto simp: assms(5) set_sites)
  have valid: "\<forall>p\<in>set (order t). 0 \<le> snd p \<and> snd p < int L"
    by (simp add: assms(5) sites_valid)
  have "?A k (?x, t) = ?A t (?x, t)"
    using assms(2) by (intro column_final) simp_all
  also have "\<dots> = sweep L d c (\<lambda>ind. rng (u * (L * L) + nat ind)) t (order t) (?A u) (?x, t)"
    by (simp only: t fst_spatial_evolve_Suc)
  also have "\<dots> = diffuse L d c (rng (u * (L * L) + nat ?x))
         (\<lambda>(a, b). ?A u (a * int L + b, t - 1)) (int i) (int j)"
    using mem by (simp only: sweep_written [OF assms(1) valid] dec if_True)
  also have "(\<lambda>(a, b). ?A u (a * int L + b, t - 1)) = (\<lambda>(a, b). ?A k (a * int L + b, t - 1))"
  proof -
    have "\<And>y. ?A k (y, u) = ?A u (y, u)"
      using assms(2) t by (intro column_final) simp_all
    then show ?thesis by (simp add: t)
  qed
  finally show ?thesis by (simp add: t site_row)
qed

lemmas spatial_simps = spatial_array_def spatial_model_def spatial_in_order_def spatial_evolve_def
  spatial_step_def sweep_def sites_def reversed_order_def update_site_eq diffuse_def
  init_lattice_def constant_generator_def counting_generator_def upt_rec

section \<open>Claims\<close>

text \<open>
  C1. For \<open>tau \<ge> 1\<close> growth factors the closed form of the specification equals the
  result of iterating the sub-step recurrence over the factors in chronological order,
  and the single-pass computation of the notebook (the full product, and the sum of the
  cumulative products of the reversed \<open>g\<^sub>2 .. g\<^sub>\<tau>\<close>) computes this closed form.
  Positivity of the factors is not needed.
\<close>

theorem update_cell_closed_form:
  assumes "1 \<le> length g"
  shows "closed_form c x g = substeps c x g \<and> update_cell c x g = closed_form c x g"
proof -
  from assms have "g \<noteq> []" by (cases g) simp_all
  then show ?thesis by (simp add: closed_form_substeps update_cell_substeps)
qed

theorem update_cell_closed_form_witness:
  "1 \<le> length [2, 1/2, 2 :: real]
   \<and> closed_form 1 5 [2, 1/2, 2] = substeps 1 5 [2, 1/2, 2]
   \<and> update_cell 1 5 [2, 1/2, 2] = closed_form 1 5 [2, 1/2, 2]
   \<and> update_cell 1 5 [2, 1/2, 2 :: real] = 14"
  using update_cell_closed_form [of "[2, 1/2, 2]" 1 5]
  by (simp add: update_cell_def)

text \<open>
  C2. In the spatial cell, for every macro step \<open>1 \<le> t < dp\<close> and every lattice
  site \<open>(i, j)\<close>, the value the run leaves at step \<open>t\<close> is
  \<open>((1 - 4 d) * old + d * (north + south + east + west)) * g + c\<close>, where \<open>old\<close> and
  the four neighbours (both coordinates wrapped modulo \<open>L\<close>) are the values of step
  \<open>t - 1\<close> and \<open>g\<close> is the site's one draw of step \<open>t\<close>. This holds for every
  order of visiting the sites within a sweep, each order giving the lattice of the
  notebook's own order; every row read lies inside the array.
\<close>

theorem spatial_update_synchronous:
  assumes "1 \<le> t" and "t < dp" and "i < L" and "j < L"
    and "\<forall>u. set (order u) = set (sites L)"
  shows "spatial_in_order order L dp c d rng np_random
       = Inr (fst (spatial_evolve order L c d rng np_random (dp - 1)))
     \<and> fst (spatial_evolve order L c d rng np_random (dp - 1)) (int i * int L + int j, t)
       = diffuse L d c (rng ((t - 1) * (L * L) + (i * L + j)))
           (\<lambda>(a, b). fst (spatial_evolve order L c d rng np_random (dp - 1)) (a * int L + b, t - 1))
           (int i) (int j)
     \<and> spatial_in_order order L dp c d rng np_random = spatial_model L dp c d rng np_random
     \<and> (\<forall>a\<in>{(int i - 1) mod int L, (int i + 1) mod int L, int i}.
         \<forall>b\<in>{(int j + 1) mod int L, (int j - 1) mod int L, int j}.
           0 \<le> a * int L + b \<and> a * int L + b < int (L * L))"
proof (intro conjI)
  from assms(1,2) have dp: "1 \<le> dp" by simp
  then show "spatial_in_order order L dp c d rng np_random
       = Inr (fst (spatial_evolve order L c d rng np_random (dp - 1)))"
    by (rule spatial_in_order_evolve)
  from assms(2) have "t \<le> dp - 1" by simp
  with assms(1) show "fst (spatial_evolve order L c d rng np_random (dp - 1)) (int i * int L + int j, t)
       = diffuse L d c (rng ((t - 1) * (L * L) + (i * L + j)))
           (\<lambda>(a, b). fst (spatial_evolve order L c d rng np_random (dp - 1)) (a * int L + b, t - 1))
           (int i) (int j)"
    using assms(3,4,5) by (intro cell_written) simp_all
  from dp show "spatial_in_order order L dp c d rng np_random = spatial_model L dp c d rng np_random"
    by (simp add: spatial_model_def spatial_in_order_evolve
          spatial_evolve_order_independent [OF assms(5)])
  from assms(3) have L: "0 < L" by simp
  have rows: "\<forall>a\<in>{(int i - 1) mod int L, (int i + 1) mod int L, int i}. 0 \<le> a \<and> a < int L"
    using assms(3) L by simp
  have cols: "\<forall>b\<in>{(int j + 1) mod int L, (int j - 1) mod int L, int j}. 0 \<le> b \<and> b < int L"
    using assms(4) L by simp
  show "\<forall>a\<in>{(int i - 1) mod int L, (int i + 1) mod int L, int i}.
         \<forall>b\<in>{(int j + 1) mod int L, (int j - 1) mod int L, int j}.
           0 \<le> a * int L + b \<and> a * int L + b < int (L * L)"
  proof (intro ballI)
    fix a b
    assume "a \<in> {(int i - 1) mod int L, (int i + 1) mod int L, int i}"
      and "b \<in> {(int j + 1) mod int L, (int j - 1) mod int L, int j}"
    with rows cols have "0 \<le> a" "a < int L" "0 \<le> b" "b < int L" by blast+
    then show "0 \<le> a * int L + b \<and> a * int L + b < int (L * L)"
      using row_bounds [of a L b] by simp
  qed
qed

theorem spatial_update_synchronous_witness:
  "(1::nat) \<le> 1 \<and> (1::nat) < 2 \<and> (0::nat) < 2
   \<and> set (reversed_order 2 1) = set (sites 2)
   \<and> spatial_in_order (reversed_order 2) 2 2 1 (1 / 10) (constant_generator 2) counting_generator
       = spatial_model 2 2 1 (1 / 10) (constant_generator 2) counting_generator
   \<and> fst (spatial_evolve (reversed_order 2) 2 1 (1 / 10) (constant_generator 2) counting_generator (2 - 1))
         (int 0 * int 2 + int 0, 1)
       = diffuse 2 (1 / 10) 1 (constant_generator 2 ((1 - 1) * (2 * 2) + (0 * 2 + 0)))
           (\<lambda>(a, b). fst (spatial_evolve (reversed_order 2) 2 1 (1 / 10) (constant_generator 2)
                           counting_generator (2 - 1)) (a * int 2 + b, 1 - 1))
           (int 0) (int 0)
   \<and> spatial_array 2 2 1 (1 / 10) (constant_generator 2) counting_generator
       = Inr [[1, 21 / 5], [2, 27 / 5], [3, 33 / 5], [4, 39 / 5]]"
proof -
  have h1: "(1::nat) \<le> 1" by simp
  have h2: "(1::nat) < 2" by simp
  have h3: "(0::nat) < 2" by simp
  have h5: "\<forall>u. set (reversed_order 2 u) = set (sites 2)" by (simp add: reversed_order_def)
  note T = spatial_update_synchronous [OF h1 h2 h3 h3 h5,
      of 1 "1 / 10" "constant_generator 2" counting_generator]
  from h5 have h5': "set (reversed_order 2 1) = set (sites 2)" by blast
  have e: "spatial_array 2 2 1 (1 / 10) (constant_generator 2) counting_generator
       = Inr [[1, 21 / 5], [2, 27 / 5], [3, 33 / 5], [4, 39 / 5]]"
    by (simp add: spatial_simps)
  from h1 h2 h3 h5' T e show ?thesis by blast
qed

text \<open>
  C3. Reproducibility from the seed fails for two cells. The spatial cell draws its
  initial lattice, and the log-uniform cell its growth factors, from NumPy's
  module-level generator, which the seed does not reach: with the same configuration
  and the same seeded generator \<open>rng\<close>, two states of the module-level generator
  give different outputs.
\<close>

theorem unseeded_draws_change_the_output:
  "spatial_array 1 2 1 (1 / 10) (constant_generator 2) (constant_generator 1) = Inr [[1, 3]]
   \<and> spatial_array 1 2 1 (1 / 10) (constant_generator 2) (constant_generator 5) = Inr [[5, 11]]
   \<and> log_uniform_model 1 1 1 2 1 (exp (- 1)) (exp 1) (constant_generator 1) (constant_generator (1 / 2))
       = Inr \<lparr>current = [[2]], N = [[1, 2]], pos = 1\<rparr>
   \<and> log_uniform_model 1 1 1 2 1 (exp (- 1)) (exp 1) (constant_generator 1) (constant_generator 0)
       = Inr \<lparr>current = [[exp (- 1) + 1]], N = [[1, exp (- 1) + 1]], pos = 1\<rparr>
   \<and> exp (- 1) + 1 \<noteq> (2::real)"
  by (simp add: spatial_array_def spatial_model_def spatial_in_order_def spatial_step_def sweep_def
        sites_def update_site_eq diffuse_def init_lattice_def log_uniform_model_def log_uniform_def
        run_simps)

text \<open>
  C4 (as amended). For a run with \<open>dp \<ge> 1\<close>, every species \<open>s\<close> and every
  \<open>t < dp - 1\<close>, the growth rate \<open>G[s][t]\<close> is the float64 quotient of \<open>N[s][t+1]\<close> by
  \<open>N[s][t]\<close>, and the computation never fails: for finite operands the quotient is
  the real quotient (an infinity beyond the float64 range, zero below it) when the
  denominator is not zero, also when it is negative, and \<open>nan\<close>, \<open>+inf\<close> or \<open>-inf\<close>
  when it is zero.
\<close>

theorem growth_rates_quotients:
  assumes "1 \<le> dp"
  shows "run_model S M tau dp c ini gs
       = Inr (N (evolve S M tau dp c ini gs (dp - 1)),
              growth_rates (N (evolve S M tau dp c ini gs (dp - 1))))
     \<and> length (growth_rates (N (evolve S M tau dp c ini gs (dp - 1)))) = S
     \<and> (\<forall>s<S. length (growth_rates (N (evolve S M tau dp c ini gs (dp - 1))) ! s) = dp - 1
          \<and> (\<forall>t<dp - 1. growth_rates (N (evolve S M tau dp c ini gs (dp - 1))) ! s ! t
                = fdiv (N (evolve S M tau dp c ini gs (dp - 1)) ! s ! Suc t)
                       (N (evolve S M tau dp c ini gs (dp - 1)) ! s ! t)))
     \<and> (\<forall>a b. fdiv (Fin a) (Fin b)
            = (if b = 0 then (if a = 0 then NaN else if 0 < a then PInf else NInf)
               else float64 (a / b)))"
proof (intro conjI allI impI)
  from assms show "run_model S M tau dp c ini gs
       = Inr (N (evolve S M tau dp c ini gs (dp - 1)),
              growth_rates (N (evolve S M tau dp c ini gs (dp - 1))))"
    by (simp add: run_model_def simulate_evolve)
next
  show "length (growth_rates (N (evolve S M tau dp c ini gs (dp - 1)))) = S"
    by (simp add: growth_rates_def length_N_evolve)
next
  fix s assume "s < S"
  then show "length (growth_rates (N (evolve S M tau dp c ini gs (dp - 1))) ! s) = dp - 1"
    by (simp add: growth_rates_def length_N_evolve length_N_row_evolve)
next
  fix s t assume "s < S" and "t < dp - 1"
  then show "growth_rates (N (evolve S M tau dp c ini gs (dp - 1))) ! s ! t
                = fdiv (N (evolve S M tau dp c ini gs (dp - 1)) ! s ! Suc t)
                       (N (evolve S M tau dp c ini gs (dp - 1)) ! s ! t)"
    by (simp add: nth_growth_rates length_N_evolve length_N_row_evolve)
next
  fix a b
  show "fdiv (Fin a) (Fin b)
            = (if b = 0 then (if a = 0 then NaN else if 0 < a then PInf else NInf)
               else float64 (a / b))"
    by simp
qed

theorem growth_rates_quotients_witness:
  "(1::nat) \<le> 3
   \<and> run_model 1 1 1 3 (Fin 1) (constant_generator (Fin 1)) (constant_generator (Fin 2))
        = Inr ([[Fin 1, Fin 3, Fin 7]], [[Fin 3, Fin (7 / 3)]])
   \<and> run_model 1 1 1 3 (Fin 1) (constant_generator (Fin 1)) (constant_generator (Fin 2))
       = Inr (N (evolve 1 1 1 3 (Fin 1) (constant_generator (Fin 1)) (constant_generator (Fin 2)) (3 - 1)),
              growth_rates (N (evolve 1 1 1 3 (Fin 1) (constant_generator (Fin 1)) (constant_generator (Fin 2)) (3 - 1))))
   \<and> growth_rates (N (evolve 1 1 1 3 (Fin 1) (constant_generator (Fin 1)) (constant_generator (Fin 2)) (3 - 1))) ! 0 ! 1
       = fdiv (N (evolve 1 1 1 3 (Fin 1) (constant_generator (Fin 1)) (constant_generator (Fin 2)) (3 - 1)) ! 0 ! Suc 1)
              (N (evolve 1 1 1 3 (Fin 1) (constant_generator (Fin 1)) (constant_generator (Fin 2)) (3 - 1)) ! 0 ! 1)"
proof -
  have h: "(1::nat) \<le> 3" by simp
  note T = growth_rates_quotients [OF h, of 1 1 1 "Fin 1" "constant_generator (Fin 1)" "constant_generator (Fin 2)"]
  have a: "run_model 1 1 1 3 (Fin 1) (constant_generator (Fin 1)) (constant_generator (Fin 2))
        = Inr ([[Fin 1, Fin 3, Fin 7]], [[Fin 3, Fin (7 / 3)]])"
    by (simp add: run_simps fval_arith)
  note b = T [THEN conjunct1]
  have c: "growth_rates (N (evolve 1 1 1 3 (Fin 1) (constant_generator (Fin 1)) (constant_generator (Fin 2)) (3 - 1))) ! 0 ! 1
       = fdiv (N (evolve 1 1 1 3 (Fin 1) (constant_generator (Fin 1)) (constant_generator (Fin 2)) (3 - 1)) ! 0 ! Suc 1)
              (N (evolve 1 1 1 3 (Fin 1) (constant_generator (Fin 1)) (constant_generator (Fin 2)) (3 - 1)) ! 0 ! 1)"
    by (rule T [THEN conjunct2, THEN conjunct2, THEN conjunct1, rule_format, THEN conjunct2, rule_format]) simp_all
  from h a b c show ?thesis by blast
qed
text \<open>
  The claim as stated fails: with \<open>c = -1\<close> the time series is \<open>1, 0, -1\<close>; the
  second growth rate divides by \<open>0\<close>, and the run returns \<open>-inf\<close> for it instead of
  failing with \<open>DivisionByZero\<close>.
\<close>

theorem growth_rates_counterexample:
  "three_value_model 1 1 1 3 (Fin (- 1)) (constant_generator (Fin 1))
     = Inr ([[Fin 1, Fin 0, Fin (- 1)]], [[Fin 0, NInf]])"
  by (simp add: three_value_model_def run_simps fval_arith)

text \<open>
  C5 (as amended). During evolution an abundance that becomes non-finite (\<open>+inf\<close>,
  \<open>-inf\<close> or \<open>nan\<close>) is not reported: no \<open>NumericOverflow\<close> is raised, and for
  \<open>dp \<ge> 1\<close> the run completes with its final state. The value is silently
  propagated: a cell that is not finite after macro step \<open>j\<close> is not finite after
  any later macro step \<open>k\<close>, and neither is the entry \<open>k\<close> of its species' time
  series. This holds for all inputs of the float64 view.
\<close>

theorem overflow_is_propagated:
  assumes "1 \<le> dp" and "s < S" and "m < M" and "j \<le> k" and "k < dp"
    and "\<not> ffinite (current (evolve S M tau dp c ini gs j) ! s ! m)"
  shows "simulate S M tau dp c ini gs = Inr (evolve S M tau dp c ini gs (dp - 1))
     \<and> \<not> ffinite (current (evolve S M tau dp c ini gs k) ! s ! m)
     \<and> \<not> ffinite (N (evolve S M tau dp c ini gs (dp - 1)) ! s ! k)"
proof (intro conjI)
  from assms(1) show "simulate S M tau dp c ini gs = Inr (evolve S M tau dp c ini gs (dp - 1))"
    by (rule simulate_evolve)
next
  from assms(2,3,6) have "\<not> ffinite (cell_after S M tau c ini gs s m j)"
    by (simp add: row_current_evolve)
  then have "\<not> ffinite (cell_after S M tau c ini gs s m (j + (k - j)))"
    by (rule cell_after_not_finite)
  with assms(4) have inf: "\<not> ffinite (cell_after S M tau c ini gs s m k)" by simp
  with assms(2,3) show "\<not> ffinite (current (evolve S M tau dp c ini gs k) ! s ! m)"
    by (simp add: row_current_evolve)
  from assms(3) have "cell_after S M tau c ini gs s m k
      \<in> set (map (\<lambda>m. cell_after S M tau c ini gs s m k) [0..<M])"
    by simp
  then have "\<not> ffinite (np_sum (map (\<lambda>m. cell_after S M tau c ini gs s m k) [0..<M]))"
    using inf by (rule np_sum_not_finite)
  with assms(2,5) show "\<not> ffinite (N (evolve S M tau dp c ini gs (dp - 1)) ! s ! k)"
    by (simp add: N_evolve)
qed

theorem overflow_is_propagated_witness:
  "(1::nat) \<le> 3 \<and> (0::nat) < 1 \<and> (1::nat) \<le> 2 \<and> (2::nat) < 3
   \<and> \<not> ffinite (current (evolve 1 1 1024 3 (Fin 1) (constant_generator (Fin 1))
                     (constant_generator (Fin 2)) 1) ! 0 ! 0)
   \<and> simulate 1 1 1024 3 (Fin 1) (constant_generator (Fin 1)) (constant_generator (Fin 2))
       = Inr (evolve 1 1 1024 3 (Fin 1) (constant_generator (Fin 1)) (constant_generator (Fin 2)) (3 - 1))
   \<and> \<not> ffinite (current (evolve 1 1 1024 3 (Fin 1) (constant_generator (Fin 1))
                     (constant_generator (Fin 2)) 2) ! 0 ! 0)
   \<and> \<not> ffinite (N (evolve 1 1 1024 3 (Fin 1) (constant_generator (Fin 1))
                     (constant_generator (Fin 2)) (3 - 1)) ! 0 ! 2)"
proof -
  have h1: "(1::nat) \<le> 3" by simp
  have h2: "(0::nat) < 1" by simp
  have h4: "(1::nat) \<le> 2" by simp
  have h5: "(2::nat) < 3" by simp
  have big: "overflow_threshold \<le> 2 * 2 ^ 1023" by (simp add: overflow_threshold_def)
  have r: "replicate 1024 (Fin 2) = replicate (Suc 1023) (Fin 2)" by simp
  have "cell_after 1 1 1024 (Fin 1) (constant_generator (Fin 1)) (constant_generator (Fin 2)) 0 0 (Suc 0)
      = update_cell (Fin 1) (Fin 1) (replicate 1024 (Fin 2))"
    by (simp only: cell_after.simps constant_generator_def [of "Fin 1"] constant_draws)
  also have "\<dots> = PInf" by (simp only: r doubling_overflows(1) [OF big])
  finally have h6: "\<not> ffinite (current (evolve 1 1 1024 3 (Fin 1) (constant_generator (Fin 1))
                     (constant_generator (Fin 2)) 1) ! 0 ! 0)"
    by (simp add: row_current_evolve)
  note T = overflow_is_propagated [OF h1 h2 h2 h4 h5 h6]
  from h1 h2 h4 h5 h6 T show ?thesis by blast
qed

text \<open>
  The claim as stated fails: with one cell starting at \<open>1\<close>, \<open>tau = 1024\<close> and every
  growth factor equal to \<open>2\<close>, the product of the factors overflows in the first macro
  step; the second macro step runs on the \<open>+inf\<close>, and the run returns a state holding
  \<open>+inf\<close> in the cell and in the time series, and no error.
\<close>

theorem overflow_counterexample:
  "simulate 1 1 1024 3 (Fin 1) (constant_generator (Fin 1)) (constant_generator (Fin 2))
     = Inr \<lparr>current = [[PInf]], N = [[Fin 1, PInf, PInf]], pos = 2048\<rparr>"
proof -
  have big: "overflow_threshold \<le> 2 * 2 ^ 1023" by (simp add: overflow_threshold_def)
  have r: "replicate 1024 (Fin 2) = replicate (Suc 1023) (Fin 2)" by simp
  have x1: "update_cell (Fin 1) (Fin 1) (map (\<lambda>j. constant_generator (Fin 2) (0 + j)) [0..<1024]) = PInf"
    by (simp only: constant_draws r doubling_overflows(1) [OF big])
  have x2: "update_cell (Fin 1) PInf (map (\<lambda>j. constant_generator (Fin 2) (1024 + j)) [0..<1024]) = PInf"
    by (simp only: constant_draws r doubling_overflows(2) [OF big])
  have s0: "init_state 1 1 3 (constant_generator (Fin 1))
      = \<lparr>current = [[Fin 1]], N = [[Fin 1, Fin 0, Fin 0]], pos = 0\<rparr>"
    by (simp add: init_single_cell constant_generator_def replicate_numeral zero_fval_def)
  have s1: "step 1 1 1024 (Fin 1) (constant_generator (Fin 2))
        \<lparr>current = [[Fin 1]], N = [[Fin 1, Fin 0, Fin 0]], pos = 0\<rparr> 1
      = \<lparr>current = [[PInf]], N = [[Fin 1, PInf, Fin 0]], pos = 1024\<rparr>"
    by (simp only: step_single_cell x1) simp
  have s2: "step 1 1 1024 (Fin 1) (constant_generator (Fin 2))
        \<lparr>current = [[PInf]], N = [[Fin 1, PInf, Fin 0]], pos = 1024\<rparr> 2
      = \<lparr>current = [[PInf]], N = [[Fin 1, PInf, PInf]], pos = 2048\<rparr>"
    by (simp only: step_single_cell x2) simp
  have "simulate 1 1 1024 3 (Fin 1) (constant_generator (Fin 1)) (constant_generator (Fin 2))
      = Inr (step 1 1 1024 (Fin 1) (constant_generator (Fin 2))
               (step 1 1 1024 (Fin 1) (constant_generator (Fin 2))
                  (init_state 1 1 3 (constant_generator (Fin 1))) 1) 2)"
    by (simp add: simulate_def upt_rec numeral_2_eq_2)
  then show ?thesis by (simp only: s0 s1 s2)
qed

text \<open>
  C6. For the binary model, for every \<open>gamma > 0\<close> and \<open>alpha > 0\<close>, the pair
  \<open>g0 = (2 / (1 + gamma^alpha))^(1 / alpha)\<close> and \<open>g1 = gamma * g0\<close> satisfies
  \<open>(1/2) * (g0^alpha + g1^alpha) = 1\<close>, exactly over the reals.
\<close>

theorem binary_moment_matching:
  assumes "0 < gamma" and "0 < alpha"
  shows "(1 / 2) * (g0 alpha gamma powr alpha + g1 alpha gamma powr alpha) = 1"
proof -
  have nz: "1 + gamma powr alpha \<noteq> 0"
    using powr_ge_zero [of gamma alpha] by linarith
  have a: "g0 alpha gamma powr alpha = 2 / (1 + gamma powr alpha)"
    using assms by (simp add: g0_powr)
  have "0 \<le> g0 alpha gamma" by (simp add: g0_def)
  with assms have "g1 alpha gamma powr alpha = gamma powr alpha * g0 alpha gamma powr alpha"
    by (simp add: g1_def powr_mult)
  then have "g0 alpha gamma powr alpha + g1 alpha gamma powr alpha
      = (1 + gamma powr alpha) * g0 alpha gamma powr alpha"
    by (simp add: algebra_simps)
  also have "\<dots> = (1 + gamma powr alpha) * (2 / (1 + gamma powr alpha))"
    by (simp only: a)
  also from nz have "\<dots> = 2" by (simp add: field_simps)
  finally show ?thesis by simp
qed

theorem binary_moment_matching_witness:
  "(0::real) < 3 \<and> (0::real) < 7 / 10
   \<and> (1 / 2) * (g0 (7 / 10) 3 powr (7 / 10) + g1 (7 / 10) 3 powr (7 / 10)) = 1"
  using binary_moment_matching [of 3 "7 / 10"] by simp

text \<open>
  C7. At \<open>tau = 1\<close> the macro-step update of a cell is exactly \<open>old * g\<^sub>1 + c\<close>: the
  slice \<open>g[1:]\<close> is empty, so its reversed cumulative product is empty and its sum
  is zero, and one forcing term \<open>+ c\<close> remains.
\<close>

theorem update_cell_tau_1:
  "update_cell c (old::real) [g] = old * g + c
   \<and> np_cumprod (rev (drop 1 [g])) = ([]::real list)
   \<and> np_sum (np_cumprod (rev (drop 1 [g]))) = (0::real)"
  by (simp add: update_cell_def)

text \<open>
  C8 (as amended). For a run with macro-step count \<open>dp \<ge> 1\<close> the loop body runs for
  \<open>t = 1 .. dp - 1\<close>: every cell is advanced by the macro-step update \<open>dp - 1\<close>
  times, each update taking the cell's \<open>tau\<close> consecutive draws of that step's batch,
  so that \<open>(dp - 1) * S * M * tau\<close> growth factors are drawn in all. The time series
  has \<open>dp\<close> entries for each of the \<open>S\<close> species: entry \<open>t\<close> is the sum over the
  species' sites after \<open>t\<close> updates, entry \<open>0\<close> being the sum of the initial
  abundances.
\<close>

theorem accumulator_steps:
  assumes "1 \<le> dp"
  shows "simulate S M tau dp c ini gs = Inr (evolve S M tau dp c ini gs (dp - 1))
     \<and> pos (evolve S M tau dp c ini gs (dp - 1)) = (dp - 1) * (S * M * tau)
     \<and> (\<forall>s<S. \<forall>m<M. current (evolve S M tau dp c ini gs (dp - 1)) ! s ! m
            = cell_after S M tau c ini gs s m (dp - 1))
     \<and> (\<forall>s<S. \<forall>t<dp. N (evolve S M tau dp c ini gs (dp - 1)) ! s ! t
            = np_sum (map (\<lambda>m. cell_after S M tau c ini gs s m t) [0..<M]))
     \<and> length (N (evolve S M tau dp c ini gs (dp - 1))) = S
     \<and> (\<forall>s<S. length (N (evolve S M tau dp c ini gs (dp - 1)) ! s) = dp)"
  using assms
  by (simp add: simulate_evolve pos_evolve row_current_evolve N_evolve length_N_evolve
        length_N_row_evolve)

theorem accumulator_steps_witness:
  "(1::nat) \<le> 3
   \<and> simulate 1 2 2 3 (1::real) (constant_generator 1) (constant_generator 2)
       = Inr (evolve 1 2 2 3 1 (constant_generator 1) (constant_generator 2) (3 - 1))
   \<and> simulate 1 2 2 3 (1::real) (constant_generator 1) (constant_generator 2)
       = Inr \<lparr>current = [[31, 31]], N = [[2, 14, 62]], pos = 8\<rparr>
   \<and> pos (evolve 1 2 2 3 (1::real) (constant_generator 1) (constant_generator 2) (3 - 1))
       = (3 - 1) * (1 * 2 * 2)
   \<and> current (evolve 1 2 2 3 (1::real) (constant_generator 1) (constant_generator 2) (3 - 1)) ! 0 ! 1
       = cell_after 1 2 2 1 (constant_generator 1) (constant_generator 2) 0 1 (3 - 1)
   \<and> N (evolve 1 2 2 3 (1::real) (constant_generator 1) (constant_generator 2) (3 - 1)) ! 0 ! 1
       = np_sum (map (\<lambda>m. cell_after 1 2 2 1 (constant_generator 1) (constant_generator 2) 0 m 1) [0..<2])
   \<and> length (N (evolve 1 2 2 3 (1::real) (constant_generator 1) (constant_generator 2) (3 - 1))) = 1
   \<and> length (N (evolve 1 2 2 3 (1::real) (constant_generator 1) (constant_generator 2) (3 - 1)) ! 0) = 3"
proof -
  have h: "(1::nat) \<le> 3" by simp
  note T = accumulator_steps [OF h, of 1 2 2 "1::real" "constant_generator 1" "constant_generator 2"]
  have a: "simulate 1 2 2 3 (1::real) (constant_generator 1) (constant_generator 2)
       = Inr (evolve 1 2 2 3 1 (constant_generator 1) (constant_generator 2) (3 - 1))"
    by (rule T [THEN conjunct1])
  have b: "simulate 1 2 2 3 (1::real) (constant_generator 1) (constant_generator 2)
       = Inr \<lparr>current = [[31, 31]], N = [[2, 14, 62]], pos = 8\<rparr>"
    by (simp add: run_simps)
  have c: "pos (evolve 1 2 2 3 (1::real) (constant_generator 1) (constant_generator 2) (3 - 1))
       = (3 - 1) * (1 * 2 * 2)"
    by (rule T [THEN conjunct2, THEN conjunct1])
  have d: "current (evolve 1 2 2 3 (1::real) (constant_generator 1) (constant_generator 2) (3 - 1)) ! 0 ! 1
       = cell_after 1 2 2 1 (constant_generator 1) (constant_generator 2) 0 1 (3 - 1)"
    by (rule T [THEN conjunct2, THEN conjunct2, THEN conjunct1, rule_format]) simp_all
  have e: "N (evolve 1 2 2 3 (1::real) (constant_generator 1) (constant_generator 2) (3 - 1)) ! 0 ! 1
       = np_sum (map (\<lambda>m. cell_after 1 2 2 1 (constant_generator 1) (constant_generator 2) 0 m 1) [0..<2])"
    by (rule T [THEN conjunct2, THEN conjunct2, THEN conjunct2, THEN conjunct1, rule_format])
       simp_all
  have f: "length (N (evolve 1 2 2 3 (1::real) (constant_generator 1) (constant_generator 2) (3 - 1))) = 1"
    by (rule T [THEN conjunct2, THEN conjunct2, THEN conjunct2, THEN conjunct2, THEN conjunct1])
  have g: "length (N (evolve 1 2 2 3 (1::real) (constant_generator 1) (constant_generator 2) (3 - 1)) ! 0) = 3"
    by (rule T [THEN conjunct2, THEN conjunct2, THEN conjunct2, THEN conjunct2, THEN conjunct2,
          rule_format]) simp
  from h a b c d e f g show ?thesis by blast
qed

text \<open>
  The claim as stated fails: with \<open>dp = 2\<close> the run ends with the cell at \<open>2\<close>, its
  value after one update, not at \<open>3\<close>, its value after \<open>dp = 2\<close> updates, and it has
  drawn one growth factor, not two.
\<close>

theorem accumulator_steps_counterexample:
  "simulate 1 1 1 2 (1::real) (constant_generator 1) (constant_generator 1)
       = Inr \<lparr>current = [[2]], N = [[1, 2]], pos = 1\<rparr>
   \<and> cell_after 1 1 1 (1::real) (constant_generator 1) (constant_generator 1) 0 0 1 = 2
   \<and> cell_after 1 1 1 (1::real) (constant_generator 1) (constant_generator 1) 0 0 2 = 3"
  by (simp add: run_simps numeral_2_eq_2)

text \<open>
  C9 (as amended). For every configuration with a finite \<open>c > 0\<close>, finite strictly
  positive growth factors, strictly positive initial abundances and at least one site
  per species, after every macro step \<open>k < dp\<close> before which no cell has left the
  finite range, every cell's abundance and every species' site sum (the entry \<open>k\<close> of
  the time series, also in the final array) is strictly positive, a positive float64
  value or \<open>+inf\<close>: up to there no growth-rate denominator is \<open>\<le> 0\<close>.
\<close>

theorem abundances_stay_positive:
  assumes "ffinite c" and "fpositive c"
    and "\<forall>i. ffinite (gs i) \<and> fpositive (gs i)"
    and "\<forall>i<S * M. fpositive (ini i)"
    and "0 < M" and "k < dp"
    and "\<forall>j<k. \<forall>s<S. \<forall>m<M. ffinite (current (evolve S M tau dp c ini gs j) ! s ! m)"
  shows "simulate S M tau dp c ini gs = Inr (evolve S M tau dp c ini gs (dp - 1))
     \<and> (\<forall>s<S.
          (\<forall>m<M. fpositive (current (evolve S M tau dp c ini gs k) ! s ! m))
          \<and> fpositive (N (evolve S M tau dp c ini gs k) ! s ! k)
          \<and> fpositive (N (evolve S M tau dp c ini gs (dp - 1)) ! s ! k))"
proof (intro conjI allI impI)
  from assms(6) have "1 \<le> dp" by simp
  then show "simulate S M tau dp c ini gs = Inr (evolve S M tau dp c ini gs (dp - 1))"
    by (rule simulate_evolve)
next
  fix s m
  assume s: "s < S" and m: "m < M"
  with assms(7) have "\<forall>j<k. ffinite (cell_after S M tau c ini gs s m j)"
    by (simp add: row_current_evolve)
  with assms(1,2,3,4) s m have "fpositive (cell_after S M tau c ini gs s m k)"
    by (intro fpositive_cell_after)
  with s m show "fpositive (current (evolve S M tau dp c ini gs k) ! s ! m)"
    by (simp add: row_current_evolve)
next
  fix s
  assume s: "s < S"
  have cells: "\<forall>x\<in>set (map (\<lambda>m. cell_after S M tau c ini gs s m k) [0..<M]). fpositive x"
  proof
    fix x
    assume "x \<in> set (map (\<lambda>m. cell_after S M tau c ini gs s m k) [0..<M])"
    then obtain m where m: "m < M" and x: "x = cell_after S M tau c ini gs s m k" by auto
    from assms(7) s m have "\<forall>j<k. ffinite (cell_after S M tau c ini gs s m j)"
      by (simp add: row_current_evolve)
    with assms(1,2,3,4) s m have "fpositive (cell_after S M tau c ini gs s m k)"
      by (intro fpositive_cell_after)
    with x show "fpositive x" by simp
  qed
  from assms(5) have "map (\<lambda>m. cell_after S M tau c ini gs s m k) [0..<M] \<noteq> []" by simp
  then have sum: "fpositive (np_sum (map (\<lambda>m. cell_after S M tau c ini gs s m k) [0..<M]))"
    using cells by (rule fpositive_np_sum)
  with s assms(6) show "fpositive (N (evolve S M tau dp c ini gs k) ! s ! k)"
    by (simp add: N_evolve)
  from sum s assms(6) show "fpositive (N (evolve S M tau dp c ini gs (dp - 1)) ! s ! k)"
    by (simp add: N_evolve)
qed

theorem abundances_stay_positive_witness:
  "ffinite (Fin 1) \<and> fpositive (Fin 1)
   \<and> ffinite (constant_generator (Fin (1 / 2)) 0) \<and> fpositive (constant_generator (Fin (1 / 2)) 0)
   \<and> fpositive (constant_generator (Fin 3) 0) \<and> (0::nat) < 1 \<and> (1::nat) < 3
   \<and> ffinite (current (evolve 1 1 1 3 (Fin 1) (constant_generator (Fin 3))
                  (constant_generator (Fin (1 / 2))) 0) ! 0 ! 0)
   \<and> simulate 1 1 1 3 (Fin 1) (constant_generator (Fin 3)) (constant_generator (Fin (1 / 2)))
        = Inr \<lparr>current = [[Fin (9 / 4)]], N = [[Fin 3, Fin (5 / 2), Fin (9 / 4)]], pos = 2\<rparr>
   \<and> fpositive (current (evolve 1 1 1 3 (Fin 1) (constant_generator (Fin 3))
                  (constant_generator (Fin (1 / 2))) 1) ! 0 ! 0)
   \<and> fpositive (N (evolve 1 1 1 3 (Fin 1) (constant_generator (Fin 3))
                  (constant_generator (Fin (1 / 2))) 1) ! 0 ! 1)
   \<and> fpositive (N (evolve 1 1 1 3 (Fin 1) (constant_generator (Fin 3))
                  (constant_generator (Fin (1 / 2))) (3 - 1)) ! 0 ! 1)"
proof -
  have u: "underflow_threshold < 1 / 2" "underflow_threshold < 1" "underflow_threshold < 3"
    by (simp_all add: underflow_threshold_def)
  have h1: "ffinite (Fin 1)" by simp
  have h2: "fpositive (Fin 1)" using u by simp
  have h3: "\<forall>i. ffinite (constant_generator (Fin (1 / 2)) i) \<and> fpositive (constant_generator (Fin (1 / 2)) i)"
    using u by (simp add: constant_generator_def)
  have h4: "\<forall>i<1 * 1. fpositive (constant_generator (Fin 3) i)"
    using u by (simp add: constant_generator_def)
  have h5: "(0::nat) < 1" by simp
  have h6: "(1::nat) < 3" by simp
  have h7': "ffinite (current (evolve 1 1 1 3 (Fin 1) (constant_generator (Fin 3))
                  (constant_generator (Fin (1 / 2))) 0) ! 0 ! 0)"
    by (simp add: evolve_0 init_single_cell constant_generator_def)
  then have h7: "\<forall>j<1. \<forall>s<1. \<forall>m<1. ffinite (current (evolve 1 1 1 3 (Fin 1)
       (constant_generator (Fin 3)) (constant_generator (Fin (1 / 2))) j) ! s ! m)"
    by simp
  note T = abundances_stay_positive [OF h1 h2 h3 h4 h5 h6 h7]
  have a: "simulate 1 1 1 3 (Fin 1) (constant_generator (Fin 3)) (constant_generator (Fin (1 / 2)))
        = Inr \<lparr>current = [[Fin (9 / 4)]], N = [[Fin 3, Fin (5 / 2), Fin (9 / 4)]], pos = 2\<rparr>"
    by (simp add: run_simps fval_arith)
  have b: "fpositive (current (evolve 1 1 1 3 (Fin 1) (constant_generator (Fin 3))
                  (constant_generator (Fin (1 / 2))) 1) ! 0 ! 0)"
    by (rule T [THEN conjunct2, rule_format, THEN conjunct1, rule_format]) simp_all
  have c: "fpositive (N (evolve 1 1 1 3 (Fin 1) (constant_generator (Fin 3))
                  (constant_generator (Fin (1 / 2))) 1) ! 0 ! 1)"
    by (rule T [THEN conjunct2, rule_format, THEN conjunct2, THEN conjunct1]) simp
  have d: "fpositive (N (evolve 1 1 1 3 (Fin 1) (constant_generator (Fin 3))
                  (constant_generator (Fin (1 / 2))) (3 - 1)) ! 0 ! 1)"
    by (rule T [THEN conjunct2, rule_format, THEN conjunct2, THEN conjunct2]) simp
  from h3 have h3a: "ffinite (constant_generator (Fin (1 / 2)) 0)"
    and h3b: "fpositive (constant_generator (Fin (1 / 2)) 0)" by blast+
  from h4 have h4': "fpositive (constant_generator (Fin 3) 0)" by simp
  from h1 h2 h3a h3b h4' h5 h6 h7' a b c d show ?thesis by blast
qed

text \<open>
  The claim as stated fails after an overflow. With one cell starting at \<open>1\<close>,
  \<open>c = 1\<close>, \<open>tau = 1100\<close>, every growth factor of the first macro step equal to \<open>2\<close>
  and every growth factor of the second equal to \<open>1/2\<close>, all inputs are strictly
  positive; the first product overflows to \<open>+inf\<close>, the second underflows to \<open>0\<close>,
  and \<open>inf * 0\<close> leaves \<open>nan\<close> in the cell and in the time series, which is not
  strictly positive.
\<close>

theorem abundances_stay_positive_counterexample:
  "simulate 1 1 1100 3 (Fin 1) (constant_generator (Fin 1))
       (switching_generator 1100 (Fin 2) (Fin (1 / 2)))
     = Inr \<lparr>current = [[NaN]], N = [[Fin 1, PInf, NaN]], pos = 2200\<rparr>
   \<and> fpositive (Fin 1) \<and> fpositive (Fin 2) \<and> fpositive (Fin (1 / 2))
   \<and> \<not> fpositive NaN"
proof -
  have big: "overflow_threshold \<le> 2 * 2 ^ 1099" by (simp add: overflow_threshold_def)
  have tiny: "1 / 2 / 2 ^ 1099 \<le> underflow_threshold" by (simp add: underflow_threshold_def)
  have r: "replicate 1100 (Fin 2) = replicate (Suc 1099) (Fin 2)"
    "replicate 1100 (Fin (1 / 2)) = replicate (Suc 1099) (Fin (1 / 2))" by simp_all
  have b: "(0::nat) + 1100 \<le> 1100" and a: "(1100::nat) \<le> 1100" by simp_all
  have x1: "update_cell (Fin 1) (Fin 1)
       (map (\<lambda>j. switching_generator 1100 (Fin 2) (Fin (1 / 2)) (0 + j)) [0..<1100]) = PInf"
    by (simp only: switching_draws_before [OF b] r doubling_overflows(1) [OF big])
  have x2: "update_cell (Fin 1) PInf
       (map (\<lambda>j. switching_generator 1100 (Fin 2) (Fin (1 / 2)) (1100 + j)) [0..<1100]) = NaN"
    by (simp only: switching_draws_after [OF a] r halving_after_overflow [OF tiny])
  have s0: "init_state 1 1 3 (constant_generator (Fin 1))
      = \<lparr>current = [[Fin 1]], N = [[Fin 1, Fin 0, Fin 0]], pos = 0\<rparr>"
    by (simp add: init_single_cell constant_generator_def replicate_numeral zero_fval_def)
  have s1: "step 1 1 1100 (Fin 1) (switching_generator 1100 (Fin 2) (Fin (1 / 2)))
        \<lparr>current = [[Fin 1]], N = [[Fin 1, Fin 0, Fin 0]], pos = 0\<rparr> 1
      = \<lparr>current = [[PInf]], N = [[Fin 1, PInf, Fin 0]], pos = 1100\<rparr>"
    by (simp only: step_single_cell x1) simp
  have s2: "step 1 1 1100 (Fin 1) (switching_generator 1100 (Fin 2) (Fin (1 / 2)))
        \<lparr>current = [[PInf]], N = [[Fin 1, PInf, Fin 0]], pos = 1100\<rparr> 2
      = \<lparr>current = [[NaN]], N = [[Fin 1, PInf, NaN]], pos = 2200\<rparr>"
    by (simp only: step_single_cell x2) simp
  have "simulate 1 1 1100 3 (Fin 1) (constant_generator (Fin 1))
         (switching_generator 1100 (Fin 2) (Fin (1 / 2)))
      = Inr (step 1 1 1100 (Fin 1) (switching_generator 1100 (Fin 2) (Fin (1 / 2)))
               (step 1 1 1100 (Fin 1) (switching_generator 1100 (Fin 2) (Fin (1 / 2)))
                  (init_state 1 1 3 (constant_generator (Fin 1))) 1) 2)"
    by (simp add: simulate_def upt_rec numeral_2_eq_2)
  then have "simulate 1 1 1100 3 (Fin 1) (constant_generator (Fin 1))
       (switching_generator 1100 (Fin 2) (Fin (1 / 2)))
     = Inr \<lparr>current = [[NaN]], N = [[Fin 1, PInf, NaN]], pos = 2200\<rparr>"
    by (simp only: s0 s1 s2)
  moreover have "fpositive (Fin 1) \<and> fpositive (Fin 2) \<and> fpositive (Fin (1 / 2))"
    by (simp add: underflow_threshold_def)
  ultimately show ?thesis by simp
qed

end
